theory Spec2Isabelle
  imports Complex_Main "HOL-Library.AList" "HOL-Library.Sublist"
begin

section \<open>Data model of \<open>BotProxyPlugin\<close> (src/main.py)\<close>

text \<open>
  Conventions of the embedding.
  \<^item> A Python \<open>str\<close> is a \<open>string\<close> holding its UTF-8 bytes; the literals of the source
    that are not ASCII are written as byte lists.
  \<^item> \<open>time.time()\<close> is an argument \<open>now\<close> of every operation, an exact real number; one
    reading is used for one synchronous section of the source (the code between two
    suspension points), so rounding of floating point is outside the model.
  \<^item> \<open>uuid.uuid4()\<close> and \<open>random.choice\<close> are arguments as well.
  \<^item> A \<open>dict\<close> is an association list in insertion order (the order Python iterates in).
  \<^item> Identities handed over by the host (\<open>get_sender_id\<close>, \<open>get_group_id\<close>) are Python
    values of unknown type, compared with \<open>==\<close> against the integers of an action.
\<close>

datatype pyval = PyInt int | PyStr string | PyNone

record action =
  act_id :: string
  act_bot_id :: int
  act_groups :: "int list"
  act_command :: string
  act_return_mode :: string
  act_desc :: string
  act_timeout :: int

record pending =
  bot_id :: int
  group_id :: int
  source_group :: pyval
  return_mode :: string
  expire_at :: real

record message_event =
  get_sender_id :: pyval
  get_group_id :: pyval
  message_str :: "string option"
  is_at_me :: bool

text \<open>
  What \<open>context.send_group_message\<close> was called with. The fields \<open>request\<close>, \<open>kind\<close> and
  \<open>sent_at\<close> are bookkeeping that the source does not have: they record on behalf of which
  request, in which role and at which clock reading the call was made, so that properties
  of deliveries can be stated.
\<close>

datatype msg_kind = Command | Result | Timeout

record sent_message =
  to_group :: pyval
  body :: string
  request :: string
  kind :: msg_kind
  sent_at :: real

text \<open>
  The control state of one request: the coroutine \<open>use_bot_action\<close> suspended in
  \<open>await send_group_message\<close>, the task \<open>_wait_timeout\<close> created but not yet run, the task
  suspended in \<open>asyncio.sleep\<close> (with its local \<open>info\<close> and the instant the sleep ends), and
  the task returned.
\<close>

datatype task_state = AwaitingSend | Created | Sleeping pending real | Returned

record plugin =
  actions :: "action list"
  rate_per_minute :: int
  request_timestamps :: "real list"
  pending_requests :: "(string \<times> pending) list"
  timeout_message :: string
  unreachable_message :: string
  sent :: "sent_message list"
  tasks :: "string \<rightharpoonup> task_state"

section \<open>Configuration parsing: \<open>_parse_actions\<close>\<close>

datatype py_error = ValueError

text \<open>
  The built-ins \<open>int(s)\<close> on a \<open>str\<close> (\<open>None\<close> where Python raises \<open>ValueError\<close>) and
  \<open>s.strip()\<close> are parameters: every theorem holds for whatever they compute.
\<close>

record python =
  int_of_str :: "string \<Rightarrow> int option"
  strip :: "string \<Rightarrow> string"

text \<open>
  Modelled from the spec: the schema of the configuration is not in the source; the
  specification gives \<open>rate_per_minute\<close> (int, default 5), \<open>timeout\<close> (int seconds, default
  30), the two message strings and the list of action lines. A key that is not set is
  \<open>None\<close>; on an \<open>int\<close> the conversion \<open>int(...)\<close> of the source is the identity.
\<close>

record config =
  known_bots_action :: "string list"
  conf_timeout :: "int option"
  conf_rate_per_minute :: "int option"
  conf_timeout_message :: "string option"
  conf_unreachable_message :: "string option"

text \<open>\<open>int(self.config.get("timeout", 30))\<close>\<close>

definition get_timeout :: "config \<Rightarrow> int" where
  "get_timeout cfg = (case conf_timeout cfg of None \<Rightarrow> 30 | Some t \<Rightarrow> t)"

text \<open>\<open>s.split(sep, maxsplit)\<close> for a separator of one character, and \<open>s.split(sep)\<close>.\<close>

fun py_split_max :: "char \<Rightarrow> nat \<Rightarrow> string \<Rightarrow> string list" where
  "py_split_max c 0 s = [s]"
| "py_split_max c (Suc n) s =
     (if c \<in> set s
      then takeWhile (\<lambda>x. x \<noteq> c) s # py_split_max c n (tl (dropWhile (\<lambda>x. x \<noteq> c) s))
      else [s])"

definition py_split :: "char \<Rightarrow> string \<Rightarrow> string list" where
  "py_split c s = py_split_max c (length s) s"

text \<open>\<open>[int(g) for g in groups.split(",") if g]\<close>: the first failing \<open>int\<close> raises.\<close>

fun int_list :: "python \<Rightarrow> string list \<Rightarrow> py_error + int list" where
  "int_list py [] = Inr []"
| "int_list py (g # gs) =
     (if g = [] then int_list py gs
      else (case int_of_str py g of
              None \<Rightarrow> Inl ValueError
            | Some i \<Rightarrow> (case int_list py gs of Inl e \<Rightarrow> Inl e | Inr is \<Rightarrow> Inr (i # is))))"

text \<open>The body of the \<open>try\<close> for one line; \<open>uid\<close> is \<open>str(uuid.uuid4())\<close>.\<close>

definition parse_line :: "python \<Rightarrow> config \<Rightarrow> string \<Rightarrow> string \<Rightarrow> py_error + action" where
  "parse_line py cfg uid line =
     (case py_split_max (CHR '';'') 4 line of
        [botQQ, groups, command, mode, desc] \<Rightarrow>
          (case int_of_str py botQQ of
             None \<Rightarrow> Inl ValueError
           | Some b \<Rightarrow>
             (case int_list py (py_split (CHR '','') groups) of
                Inl e \<Rightarrow> Inl e
              | Inr gs \<Rightarrow>
                  Inr \<lparr>act_id = uid, act_bot_id = b, act_groups = gs, act_command = command,
                       act_return_mode = strip py mode, act_desc = strip py desc,
                       act_timeout = get_timeout cfg\<rparr>))
      | _ \<Rightarrow> Inl ValueError)"

text \<open>
  The loop over the lines: \<open>except Exception\<close> logs and goes on with the next line.
  \<open>uuid k\<close> is the identifier drawn while line number \<open>k\<close> is parsed.
\<close>

fun parse_actions :: "python \<Rightarrow> config \<Rightarrow> (nat \<Rightarrow> string) \<Rightarrow> nat \<Rightarrow> string list \<Rightarrow> action list" where
  "parse_actions py cfg uuid k [] = []"
| "parse_actions py cfg uuid k (line # lines) =
     (case parse_line py cfg (uuid k) line of
        Inr a \<Rightarrow> a # parse_actions py cfg uuid (Suc k) lines
      | Inl e \<Rightarrow> parse_actions py cfg uuid (Suc k) lines)"

text \<open>\<open>sep.join(parts)\<close>, used to say what a line is made of.\<close>

fun join :: "char \<Rightarrow> string list \<Rightarrow> string" where
  "join c [] = []"
| "join c [p] = p"
| "join c (p # q # ps) = p @ c # join c (q # ps)"

text \<open>
  What the parser accepts, as \<open>line.split(";", 4)\<close> reads a line: the first four semicolons
  separate five fields, the fifth being everything after the fourth semicolon (so it may
  itself hold semicolons); the first field converts to an integer; the second is a list of
  parts separated by commas, each empty or converting to an integer. \<open>describes\<close> also
  names the record such a line stands for.
\<close>

definition describes :: "python \<Rightarrow> int \<Rightarrow> string \<Rightarrow> string \<Rightarrow> action \<Rightarrow> bool" where
  "describes py T uid line a \<longleftrightarrow>
     (\<exists>botQQ parts command mode desc b.
        line = botQQ @ CHR '';'' # join (CHR '','') parts @ CHR '';'' # command @ CHR '';'' # mode
                 @ CHR '';'' # desc \<and>
        CHR '';'' \<notin> set botQQ \<and> CHR '';'' \<notin> set command \<and> CHR '';'' \<notin> set mode \<and>
        parts \<noteq> [] \<and> (\<forall>p\<in>set parts. CHR '';'' \<notin> set p \<and> CHR '','' \<notin> set p) \<and>
        int_of_str py botQQ = Some b \<and>
        (\<forall>p\<in>set parts. p \<noteq> [] \<longrightarrow> int_of_str py p \<noteq> None) \<and>
        a = \<lparr>act_id = uid, act_bot_id = b,
             act_groups = map (\<lambda>p. the (int_of_str py p)) (filter (\<lambda>p. p \<noteq> []) parts),
             act_command = command, act_return_mode = strip py mode, act_desc = strip py desc,
             act_timeout = T\<rparr>)"

text \<open>The lines the parser accepts.\<close>

definition parsable :: "python \<Rightarrow> string \<Rightarrow> bool" where
  "parsable py line \<longleftrightarrow> (\<exists>T uid a. describes py T uid line a)"

text \<open>
  A well-formed line as claim C7 words it: exactly five fields separated by semicolons,
  none of them holding a semicolon, with a numeric first field and numeric group ids.
\<close>

definition five_fields :: "python \<Rightarrow> string \<Rightarrow> bool" where
  "five_fields py line \<longleftrightarrow>
     (\<exists>botQQ parts command mode desc.
        line = botQQ @ CHR '';'' # join (CHR '','') parts @ CHR '';'' # command @ CHR '';'' # mode
                 @ CHR '';'' # desc \<and>
        CHR '';'' \<notin> set botQQ \<and> CHR '';'' \<notin> set command \<and> CHR '';'' \<notin> set mode \<and>
        CHR '';'' \<notin> set desc \<and>
        parts \<noteq> [] \<and> (\<forall>p\<in>set parts. CHR '';'' \<notin> set p \<and> CHR '','' \<notin> set p) \<and>
        int_of_str py botQQ \<noteq> None \<and>
        (\<forall>p\<in>set parts. p \<noteq> [] \<longrightarrow> int_of_str py p \<noteq> None))"

section \<open>The correlation table\<close>

text \<open>
  \<open>d.pop(k, None)\<close>: the value or \<open>None\<close>, and the dictionary without the key. With the
  default given there is no \<open>KeyError\<close>. \<open>d[k] = v\<close> is \<^const>\<open>AList.update\<close>, \<open>d.get(k)\<close> is
  \<^const>\<open>map_of\<close>.
\<close>

definition dict_pop :: "string \<Rightarrow> (string \<times> 'v) list \<Rightarrow> 'v option \<times> (string \<times> 'v) list" where
  "dict_pop k d = (map_of d k, AList.delete k d)"

section \<open>Rate limiter: \<open>_rate_limited\<close>\<close>

definition rate_limited :: "real \<Rightarrow> plugin \<Rightarrow> bool \<times> plugin" where
  "rate_limited now s =
     (let ts = filter (\<lambda>t. now - t < 60) (request_timestamps s) in
      if rate_per_minute s \<le> int (length ts)
      then (True, s\<lparr>request_timestamps := ts\<rparr>)
      else (False, s\<lparr>request_timestamps := ts @ [now]\<rparr>))"

text \<open>A sequence of calls at the given clock readings, with the answer of each.\<close>

fun rate_limited_seq :: "real list \<Rightarrow> plugin \<Rightarrow> bool list \<times> plugin" where
  "rate_limited_seq [] s = ([], s)"
| "rate_limited_seq (t # ts) s =
     (case rate_limited t s of
        (r, s') \<Rightarrow> (case rate_limited_seq ts s' of (rs, s'') \<Rightarrow> (r # rs, s'')))"

text \<open>The clock readings of the calls that were admitted (answer \<open>False\<close>).\<close>

definition admitted :: "real list \<Rightarrow> bool list \<Rightarrow> real list" where
  "admitted ts rs = map fst (filter (\<lambda>(t, r). \<not> r) (zip ts rs))"

text \<open>
  The limiter as the specification words it: timestamps strictly older than 60 seconds
  are dropped, so one that is exactly 60 seconds old stays.
\<close>

definition rate_limited_spec :: "real \<Rightarrow> plugin \<Rightarrow> bool \<times> plugin" where
  "rate_limited_spec now s =
     (let ts = filter (\<lambda>t. \<not> (60 < now - t)) (request_timestamps s) in
      if rate_per_minute s \<le> int (length ts)
      then (True, s\<lparr>request_timestamps := ts\<rparr>)
      else (False, s\<lparr>request_timestamps := ts @ [now]\<rparr>))"

section \<open>Dispatcher: \<open>use_bot_action\<close>\<close>

definition rate_notice :: string where
  "rate_notice = [CHR 0xF0, CHR 0x9F, CHR 0x9A, CHR 0xA6, CHR 0x20, CHR 0xE8, CHR 0xAF,
     CHR 0xB7, CHR 0xE6, CHR 0xB1, CHR 0x82, CHR 0xE8, CHR 0xBF, CHR 0x87, CHR 0xE4, CHR 0xBA,
     CHR 0x8E, CHR 0xE9, CHR 0xA2, CHR 0x91, CHR 0xE7, CHR 0xB9, CHR 0x81]"

definition not_found_notice :: string where
  "not_found_notice = [CHR 0xE2, CHR 0x9D, CHR 0x8C, CHR 0x20, CHR 0xE6, CHR 0x9C, CHR 0xAA,
     CHR 0xE6, CHR 0x89, CHR 0xBE, CHR 0xE5, CHR 0x88, CHR 0xB0, CHR 0xE5, CHR 0x8C, CHR 0xB9,
     CHR 0xE9, CHR 0x85, CHR 0x8D, CHR 0xE7, CHR 0x9A, CHR 0x84, CHR 0xE5, CHR 0x8A, CHR 0x9F,
     CHR 0xE8, CHR 0x83, CHR 0xBD]"

definition result_prefix :: string where
  "result_prefix = [CHR 0xF0, CHR 0x9F, CHR 0xA4, CHR 0x96, CHR 0x20, CHR 0xE7, CHR 0xBB,
     CHR 0x93, CHR 0xE6, CHR 0x9E, CHR 0x9C, CHR 0xEF, CHR 0xBC, CHR 0x9A, CHR 0x0A]"

text \<open>
  \<open>x in s\<close> on strings is \<^const>\<open>sublist\<close>: on valid UTF-8 a match of bytes is a match of
  code points. \<open>next((a for a in self.actions if ...), None)\<close> is \<^const>\<open>find\<close>.
\<close>

definition find_action :: "string \<Rightarrow> action list \<Rightarrow> action option" where
  "find_action action_desc as = find (\<lambda>a. sublist action_desc (act_desc a)) as"

text \<open>
  The branch a call ends in, and what the caller gets for it: the text yielded with
  \<open>event.plain_result\<close>, or nothing on the path that dispatches.
\<close>

datatype outcome = RateLimited | NotFound | Unreachable | Dispatched string

definition notice :: "plugin \<Rightarrow> outcome \<Rightarrow> string option" where
  "notice s r =
     (case r of
        RateLimited \<Rightarrow> Some rate_notice
      | NotFound \<Rightarrow> Some not_found_notice
      | Unreachable \<Rightarrow> Some (unreachable_message s)
      | Dispatched request_id \<Rightarrow> None)"

text \<open>
  \<open>use_bot_action\<close> up to its suspension in \<open>await send_group_message\<close>. \<open>pick\<close> stands for
  \<open>random.choice\<close>: any index into the non-empty list.
\<close>

definition use_bot_action ::
  "message_event \<Rightarrow> string \<Rightarrow> string \<Rightarrow> nat \<Rightarrow> real \<Rightarrow> plugin \<Rightarrow> outcome \<times> plugin" where
  "use_bot_action event action_desc request_id pick now s =
     (case rate_limited now s of
        (True, s1) \<Rightarrow> (RateLimited, s1)
      | (False, s1) \<Rightarrow>
        (case find_action action_desc (actions s1) of
           None \<Rightarrow> (NotFound, s1)
         | Some a \<Rightarrow>
           if act_groups a = [] then (Unreachable, s1)
           else
             let target_group = act_groups a ! (pick mod length (act_groups a)) in
             (Dispatched request_id,
              s1\<lparr>pending_requests :=
                    AList.update request_id
                      \<lparr>bot_id = act_bot_id a, group_id = target_group,
                       source_group = get_group_id event,
                       return_mode = act_return_mode a,
                       expire_at = now + real_of_int (act_timeout a)\<rparr>
                      (pending_requests s1),
                  sent := sent s1 @
                    [\<lparr>to_group = PyInt target_group, body = act_command a,
                      request = request_id, kind = Command, sent_at = now\<rparr>],
                  tasks := (tasks s1)(request_id \<mapsto> AwaitingSend)\<rparr>)))"

text \<open>The coroutine resumes after the send: \<open>asyncio.create_task(self._wait_timeout(...))\<close>.\<close>

definition use_bot_action_resume :: "string \<Rightarrow> plugin \<Rightarrow> plugin" where
  "use_bot_action_resume request_id s =
     (case tasks s request_id of
        Some AwaitingSend \<Rightarrow> s\<lparr>tasks := (tasks s)(request_id \<mapsto> Created)\<rparr>
      | _ \<Rightarrow> s)"

section \<open>Expiry watchdog: \<open>_wait_timeout\<close>\<close>

text \<open>The argument of \<open>asyncio.sleep\<close>.\<close>

definition sleep_delay :: "pending \<Rightarrow> real \<Rightarrow> real" where
  "sleep_delay info now = max 0 (expire_at info - now)"

text \<open>
  The task runs up to \<open>await asyncio.sleep\<close>: a missing entry ends it. The sleep ends no
  earlier than its delay after \<open>now\<close>.
\<close>

definition wait_timeout_start :: "string \<Rightarrow> real \<Rightarrow> plugin \<Rightarrow> plugin" where
  "wait_timeout_start request_id now s =
     (case tasks s request_id of
        Some Created \<Rightarrow>
          (case map_of (pending_requests s) request_id of
             None \<Rightarrow> s\<lparr>tasks := (tasks s)(request_id \<mapsto> Returned)\<rparr>
           | Some info \<Rightarrow>
               s\<lparr>tasks := (tasks s)(request_id \<mapsto> Sleeping info (now + sleep_delay info now))\<rparr>)
      | _ \<Rightarrow> s)"

text \<open>
  The task wakes at \<open>now\<close> (nothing happens while the sleep has not ended): if the key is
  still in the table it is popped and the timeout message goes to \<open>info["source_group"]\<close>.
\<close>

definition wait_timeout_wake :: "string \<Rightarrow> real \<Rightarrow> plugin \<Rightarrow> plugin" where
  "wait_timeout_wake request_id now s =
     (case tasks s request_id of
        Some (Sleeping info wake_at) \<Rightarrow>
          if now < wake_at then s
          else if map_of (pending_requests s) request_id \<noteq> None
          then s\<lparr>pending_requests := snd (dict_pop request_id (pending_requests s)),
                 sent := sent s @
                   [\<lparr>to_group = source_group info, body = timeout_message s,
                     request = request_id, kind = Timeout, sent_at = now\<rparr>],
                 tasks := (tasks s)(request_id \<mapsto> Returned)\<rparr>
          else s\<lparr>tasks := (tasks s)(request_id \<mapsto> Returned)\<rparr>
      | _ \<Rightarrow> s)"

section \<open>Reply matcher: \<open>on_all_message\<close>\<close>

text \<open>
  The \<open>for\<close> loop over \<open>list(self.pending_requests.items())\<close>: each \<open>continue\<close> goes on with
  the rest, the first entry that passes every test is returned.
\<close>

fun first_match :: "message_event \<Rightarrow> real \<Rightarrow> (string \<times> pending) list \<Rightarrow> (string \<times> pending) option" where
  "first_match event now [] = None"
| "first_match event now ((req_id, info) # rest) =
     (if get_sender_id event \<noteq> PyInt (bot_id info) then first_match event now rest
      else if get_group_id event \<noteq> PyInt (group_id info) then first_match event now rest
      else if now > expire_at info then first_match event now rest
      else if return_mode info = ''@'' \<and> \<not> is_at_me event then first_match event now rest
      else Some (req_id, info))"

text \<open>The result tells whether \<open>event.stop_event()\<close> was called.\<close>

definition on_all_message :: "message_event \<Rightarrow> real \<Rightarrow> plugin \<Rightarrow> bool \<times> plugin" where
  "on_all_message event now s =
     (let msg = (case message_str event of None \<Rightarrow> [] | Some m \<Rightarrow> m) in
      case first_match event now (pending_requests s) of
        None \<Rightarrow> (False, s)
      | Some (req_id, info) \<Rightarrow>
          (True,
           s\<lparr>pending_requests := snd (dict_pop req_id (pending_requests s)),
             sent := sent s @
               [\<lparr>to_group = source_group info, body = result_prefix @ msg,
                 request = req_id, kind = Result, sent_at = now\<rparr>]\<rparr>))"

text \<open>The four conditions of the specification, for one entry.\<close>

definition accepts :: "message_event \<Rightarrow> real \<Rightarrow> pending \<Rightarrow> bool" where
  "accepts event now info \<longleftrightarrow>
     get_sender_id event = PyInt (bot_id info) \<and>
     get_group_id event = PyInt (group_id info) \<and>
     now \<le> expire_at info \<and>
     (return_mode info = ''@'' \<longrightarrow> is_at_me event)"

section \<open>Teardown: \<open>terminate\<close>\<close>

definition terminate :: "plugin \<Rightarrow> plugin" where
  "terminate s = s\<lparr>pending_requests := []\<rparr>"

section \<open>Construction: \<open>__init__\<close>\<close>

definition default_timeout_message :: string where
  "default_timeout_message = [CHR 0xE8, CHR 0xAF, CHR 0xB7, CHR 0xE6, CHR 0xB1, CHR 0x82,
     CHR 0xE8, CHR 0xB6, CHR 0x85, CHR 0xE6, CHR 0x97, CHR 0xB6]"

definition default_unreachable_message :: string where
  "default_unreachable_message = [CHR 0xE4, CHR 0xB8, CHR 0x8D, CHR 0xE5, CHR 0x8F, CHR 0xAF,
     CHR 0xE8, CHR 0xBE, CHR 0xBE]"

text \<open>
  The plugin as the constructor leaves it; no message has been sent and no task exists.
\<close>

definition init :: "python \<Rightarrow> config \<Rightarrow> (nat \<Rightarrow> string) \<Rightarrow> plugin" where
  "init py cfg uuid =
     \<lparr>actions = parse_actions py cfg uuid 0 (known_bots_action cfg),
      rate_per_minute = (case conf_rate_per_minute cfg of None \<Rightarrow> 5 | Some n \<Rightarrow> n),
      request_timestamps = [],
      pending_requests = [],
      timeout_message =
        (case conf_timeout_message cfg of None \<Rightarrow> default_timeout_message | Some m \<Rightarrow> m),
      unreachable_message =
        (case conf_unreachable_message cfg of None \<Rightarrow> default_unreachable_message | Some m \<Rightarrow> m),
      sent = [], tasks = Map.empty\<rparr>"

section \<open>Cooperative scheduling\<close>

text \<open>
  One event is one synchronous section run by the event loop; a run is any sequence of
  them, which is every interleaving of the tasks at their suspension points.
\<close>

datatype event =
    Dispatch message_event string string nat real
  | Resume string
  | WatchdogStart string real
  | WatchdogWake string real
  | Message message_event real
  | Terminate

fun step :: "event \<Rightarrow> plugin \<Rightarrow> plugin" where
  "step (Dispatch ev d rid pick now) s = snd (use_bot_action ev d rid pick now s)"
| "step (Resume rid) s = use_bot_action_resume rid s"
| "step (WatchdogStart rid now) s = wait_timeout_start rid now s"
| "step (WatchdogWake rid now) s = wait_timeout_wake rid now s"
| "step (Message ev now) s = snd (on_all_message ev now s)"
| "step Terminate s = terminate s"

fun run :: "event list \<Rightarrow> plugin \<Rightarrow> plugin" where
  "run [] s = s"
| "run (e # es) s = run es (step e s)"

text \<open>The request identifiers that the dispatches of a run draw.\<close>

fun dispatch_ids :: "event list \<Rightarrow> string list" where
  "dispatch_ids [] = []"
| "dispatch_ids (Dispatch ev d rid pick now # es) = rid # dispatch_ids es"
| "dispatch_ids (e # es) = dispatch_ids es"

text \<open>The result and timeout messages sent on behalf of a request.\<close>

definition deliveries :: "string \<Rightarrow> plugin \<Rightarrow> sent_message list" where
  "deliveries rid s = filter (\<lambda>m. request m = rid \<and> kind m \<noteq> Command) (sent s)"

section \<open>Invariants of one request\<close>

text \<open>
  Two invariants of one request \<open>rid\<close> along a run. \<open>once\<close>: while the key is in the table
  nothing has been delivered and the watchdog has not returned; once it is gone exactly one
  delivery has been made. \<open>timed\<close>: the entry and the watchdog's copy of it name the group
  \<open>G\<close> and the expiry \<open>E\<close>, the sleep ends no earlier than \<open>E\<close>, and every delivery goes to
  \<open>G\<close>, a timeout no earlier than \<open>E\<close>.
\<close>

definition once :: "string \<Rightarrow> plugin \<Rightarrow> bool" where
  "once rid s \<longleftrightarrow>
     tasks s rid \<noteq> None \<and>
     (if map_of (pending_requests s) rid = None then length (deliveries rid s) = 1
      else deliveries rid s = [] \<and> tasks s rid \<noteq> Some Returned)"

definition timed :: "string \<Rightarrow> pyval \<Rightarrow> real \<Rightarrow> plugin \<Rightarrow> bool" where
  "timed rid G E s \<longleftrightarrow>
     (\<forall>i. (rid, i) \<in> set (pending_requests s) \<longrightarrow> source_group i = G \<and> expire_at i = E) \<and>
     (\<forall>i w. tasks s rid = Some (Sleeping i w) \<longrightarrow> source_group i = G \<and> E \<le> w) \<and>
     (\<forall>m\<in>set (deliveries rid s). to_group m = G \<and> (kind m = Timeout \<longrightarrow> E \<le> sent_at m))"

section \<open>Concrete values for the examples\<close>

definition plugin0 :: plugin where
  "plugin0 = \<lparr>actions = [], rate_per_minute = 1, request_timestamps = [0],
     pending_requests = [], timeout_message = ''timeout'', unreachable_message = ''unreachable'',
     sent = [], tasks = Map.empty\<rparr>"

definition plugin1 :: plugin where
  "plugin1 = \<lparr>actions = [], rate_per_minute = 2, request_timestamps = [],
     pending_requests = [], timeout_message = ''timeout'', unreachable_message = ''unreachable'',
     sent = [], tasks = Map.empty\<rparr>"

definition action_ping :: action where
  "action_ping = \<lparr>act_id = ''a1'', act_bot_id = 1001, act_groups = [2001, 2002],
     act_command = ''ping'', act_return_mode = [], act_desc = ''network test'', act_timeout = 5\<rparr>"

definition action_at :: action where
  "action_at = \<lparr>act_id = ''a2'', act_bot_id = 1002, act_groups = [],
     act_command = ''weather'', act_return_mode = ''@'', act_desc = ''weather test'', act_timeout = 5\<rparr>"

definition plugin2 :: plugin where
  "plugin2 = \<lparr>actions = [action_ping, action_at], rate_per_minute = 5, request_timestamps = [],
     pending_requests = [], timeout_message = ''timeout'', unreachable_message = ''unreachable'',
     sent = [], tasks = Map.empty\<rparr>"

definition ev_user :: message_event where
  "ev_user = \<lparr>get_sender_id = PyInt 42, get_group_id = PyInt 3003,
     message_str = Some ''run a test'', is_at_me = True\<rparr>"

definition ev_pong :: message_event where
  "ev_pong = \<lparr>get_sender_id = PyInt 1001, get_group_id = PyInt 2001,
     message_str = Some ''pong'', is_at_me = False\<rparr>"

definition info_a :: pending where
  "info_a = \<lparr>bot_id = 1001, group_id = 2001, source_group = PyInt 3003, return_mode = ''@'',
     expire_at = 100\<rparr>"

definition info_b :: pending where
  "info_b = \<lparr>bot_id = 1001, group_id = 2001, source_group = PyInt 3004, return_mode = [],
     expire_at = 100\<rparr>"

definition info_c :: pending where
  "info_c = \<lparr>bot_id = 1001, group_id = 2001, source_group = PyInt 3005, return_mode = [],
     expire_at = 100\<rparr>"

definition ps3 :: "(string \<times> pending) list" where
  "ps3 = [(''r1'', info_a), (''r2'', info_b), (''r3'', info_c)]"

definition plugin3 :: plugin where
  "plugin3 = plugin2\<lparr>pending_requests := ps3\<rparr>"

definition plugin4 :: plugin where
  "plugin4 = plugin3\<lparr>tasks := [''r2'' \<mapsto> Sleeping info_b 100]\<rparr>"

text \<open>
  An instance of the built-ins for the examples: decimal digits with an optional minus
  sign, and stripping of spaces. On such strings it computes what Python computes.
\<close>

definition digit_val :: "char \<Rightarrow> nat option" where
  "digit_val c =
     (let n = of_char c in if 48 \<le> n \<and> n \<le> (57::nat) then Some (n - 48) else None)"

fun digits_val :: "nat \<Rightarrow> string \<Rightarrow> nat option" where
  "digits_val acc [] = Some acc"
| "digits_val acc (c # cs) =
     (case digit_val c of None \<Rightarrow> None | Some d \<Rightarrow> digits_val (10 * acc + d) cs)"

definition ascii_int :: "string \<Rightarrow> int option" where
  "ascii_int s =
     (case s of
        [] \<Rightarrow> None
      | c # cs \<Rightarrow>
          if c = CHR ''-'' then (if cs = [] then None else map_option (\<lambda>n. - int n) (digits_val 0 cs))
          else map_option int (digits_val 0 s))"

definition ascii_strip :: "string \<Rightarrow> string" where
  "ascii_strip s =
     rev (dropWhile (\<lambda>c. c = CHR '' '') (rev (dropWhile (\<lambda>c. c = CHR '' '') s)))"

definition ascii_python :: python where
  "ascii_python = \<lparr>int_of_str = ascii_int, strip = ascii_strip\<rparr>"

definition config1 :: config where
  "config1 = \<lparr>known_bots_action =
       [''1001;2001,2002;ping;;network test'', ''oops'', ''abc;1;cmd;@;x'',
        ''1002;;weather;@; weather test ''],
     conf_timeout = Some 5, conf_rate_per_minute = None, conf_timeout_message = None,
     conf_unreachable_message = None\<rparr>"

definition uuid1 :: "nat \<Rightarrow> string" where
  "uuid1 k = replicate k (CHR ''u'')"

definition parsed1 :: "action list" where
  "parsed1 =
     [\<lparr>act_id = [], act_bot_id = 1001, act_groups = [2001, 2002], act_command = ''ping'',
       act_return_mode = [], act_desc = ''network test'', act_timeout = 5\<rparr>,
      \<lparr>act_id = ''uuu'', act_bot_id = 1002, act_groups = [], act_command = ''weather'',
       act_return_mode = ''@'', act_desc = ''weather test'', act_timeout = 5\<rparr>]"

definition info1 :: pending where
  "info1 = \<lparr>bot_id = 1001, group_id = 2001, source_group = PyInt 3003, return_mode = [],
     expire_at = 12\<rparr>"

definition dispatched2 :: plugin where
  "dispatched2 = plugin2
     \<lparr>request_timestamps := [7], pending_requests := [(''r1'', info1)],
      sent := [\<lparr>to_group = PyInt 2001, body = ''ping'', request = ''r1'', kind = Command,
                sent_at = 7\<rparr>],
      tasks := [''r1'' \<mapsto> AwaitingSend]\<rparr>"

definition reply_first :: "event list" where
  "reply_first = [Resume ''r1'', WatchdogStart ''r1'' 7, Message ev_pong 9, WatchdogWake ''r1'' 12]"

definition timeout_first :: "event list" where
  "timeout_first = [Resume ''r1'', WatchdogStart ''r1'' 7, WatchdogWake ''r1'' 12, Message ev_pong 12]"

definition after_teardown :: "event list" where
  "after_teardown = [WatchdogWake ''r1'' 12, Message ev_pong 9]"

definition no_reply :: "event list" where
  "no_reply = [Message ev_user 8]"

definition six_fields :: string where
  "six_fields = ''1;2;cmd;@;a;b''"

section \<open>Properties\<close>

subsection \<open>Rate limiter\<close>

lemma filter_window_mono:
  fixes t now :: real
  assumes "t \<le> now"
  shows "filter (\<lambda>x. now - x < 60) (filter (\<lambda>x. t - x < 60) xs) = filter (\<lambda>x. now - x < 60) xs"
proof -
  have "\<And>x. now - x < 60 \<Longrightarrow> t - x < 60" using assms by linarith
  then show ?thesis by (induction xs) auto
qed

lemma rate_limited_frame:
  "snd (rate_limited now s) =
     s\<lparr>request_timestamps :=
         (if fst (rate_limited now s) then filter (\<lambda>t. now - t < 60) (request_timestamps s)
          else filter (\<lambda>t. now - t < 60) (request_timestamps s) @ [now])\<rparr>"
  by (simp add: rate_limited_def Let_def)

lemma rate_limited_answer:
  "fst (rate_limited now s) \<longleftrightarrow>
     rate_per_minute s \<le> int (length (filter (\<lambda>t. now - t < 60) (request_timestamps s)))"
  by (simp add: rate_limited_def Let_def)

lemma rate_limited_rate: "rate_per_minute (snd (rate_limited now s)) = rate_per_minute s"
  by (simp add: rate_limited_def Let_def)

lemma rate_limited_seq_rate:
  "rate_limited_seq ts s = (rs, s') \<Longrightarrow> rate_per_minute s' = rate_per_minute s"
proof (induction ts arbitrary: s rs s')
  case Nil
  then show ?case by simp
next
  case (Cons t ts)
  obtain r s1 where a: "rate_limited t s = (r, s1)" by (cases "rate_limited t s")
  obtain rs1 s2 where b: "rate_limited_seq ts s1 = (rs1, s2)" by (cases "rate_limited_seq ts s1")
  from Cons.prems a b have "s' = s2" by simp
  moreover have "rate_per_minute s2 = rate_per_minute s1" using Cons.IH [OF b] .
  moreover have "rate_per_minute s1 = rate_per_minute s"
    using rate_limited_rate [of t s] a by simp
  ultimately show ?case by simp
qed

lemma rate_limited_seq_window:
  "\<forall>t\<in>set ts. t \<le> now \<Longrightarrow> rate_limited_seq ts s = (rs, s') \<Longrightarrow>
   filter (\<lambda>x. now - x < 60) (request_timestamps s') =
   filter (\<lambda>x. now - x < 60) (request_timestamps s @ admitted ts rs)"
proof (induction ts arbitrary: s rs s')
  case Nil
  then show ?case by (simp add: admitted_def)
next
  case (Cons t ts)
  obtain r s1 where a: "rate_limited t s = (r, s1)" by (cases "rate_limited t s")
  obtain rs1 s2 where b: "rate_limited_seq ts s1 = (rs1, s2)" by (cases "rate_limited_seq ts s1")
  from Cons.prems(2) a b have eq: "rs = r # rs1" "s' = s2" by simp_all
  have le: "t \<le> now" and rest: "\<forall>x\<in>set ts. x \<le> now" using Cons.prems(1) by simp_all
  have ih: "filter (\<lambda>x. now - x < 60) (request_timestamps s2) =
      filter (\<lambda>x. now - x < 60) (request_timestamps s1 @ admitted ts rs1)"
    using Cons.IH [OF rest b] .
  have s1: "request_timestamps s1 =
      (if r then filter (\<lambda>x. t - x < 60) (request_timestamps s)
       else filter (\<lambda>x. t - x < 60) (request_timestamps s) @ [t])"
    using rate_limited_frame [of t s] a by simp
  have adm: "admitted (t # ts) (r # rs1) = (if r then admitted ts rs1 else t # admitted ts rs1)"
    by (simp add: admitted_def)
  show ?case
    unfolding eq ih s1 adm using filter_window_mono [OF le, of "request_timestamps s"]
    by simp
qed

lemma rate_limited_seq_bound:
  "0 \<le> rate_per_minute s \<Longrightarrow> int (length (request_timestamps s)) \<le> rate_per_minute s \<Longrightarrow>
   rate_limited_seq ts s = (rs, s') \<Longrightarrow> int (length (request_timestamps s')) \<le> rate_per_minute s"
proof (induction ts arbitrary: s rs s')
  case Nil
  then show ?case by simp
next
  case (Cons t ts)
  obtain r s1 where a: "rate_limited t s = (r, s1)" by (cases "rate_limited t s")
  obtain rs1 s2 where b: "rate_limited_seq ts s1 = (rs1, s2)" by (cases "rate_limited_seq ts s1")
  from Cons.prems(3) a b have eq: "s' = s2" by simp
  have r1: "rate_per_minute s1 = rate_per_minute s"
    using rate_limited_rate [of t s] a by simp
  have fr: "request_timestamps s1 =
      (if r then filter (\<lambda>x. t - x < 60) (request_timestamps s)
       else filter (\<lambda>x. t - x < 60) (request_timestamps s) @ [t])"
    using rate_limited_frame [of t s] a by simp
  have an: "r \<longleftrightarrow> rate_per_minute s \<le> int (length (filter (\<lambda>x. t - x < 60) (request_timestamps s)))"
    using rate_limited_answer [of t s] a by simp
  have "int (length (request_timestamps s1)) \<le> rate_per_minute s"
  proof (cases r)
    case True
    have "length (request_timestamps s1) \<le> length (request_timestamps s)"
      using True fr by simp
    then show ?thesis using Cons.prems(2) by linarith
  next
    case False
    then show ?thesis using fr an by simp
  qed
  then show ?case using Cons.IH [OF _ _ b] Cons.prems(1) r1 eq by simp
qed

lemma rate_limited_aged:
  assumes "int (length (request_timestamps s)) \<le> rate_per_minute s"
    and "t \<in> set (request_timestamps s)" and "60 \<le> now - t"
  shows "\<not> fst (rate_limited now s)"
proof -
  have "\<not> (now - t < 60)" using assms(3) by simp
  then have "length (filter (\<lambda>x. now - x < 60) (request_timestamps s)) < length (request_timestamps s)"
    using assms(2) length_filter_less by fastforce
  then show ?thesis using assms(1) by (simp add: rate_limited_answer)
qed

text \<open>
  Claim C3, as the code has it. A call keeps exactly the timestamps less than 60 seconds
  old (one that is 60 seconds old or older is dropped), answers "limited" without recording
  when at least \<open>rate_per_minute\<close> remain, and otherwise records \<open>now\<close> and admits; nothing
  else of the plugin changes. Hence, for calls made at clock readings up to \<open>now\<close> on an
  empty window, the call at \<open>now\<close> is refused exactly when \<open>rate_per_minute\<close> of the admitted
  calls are less than 60 seconds old; the window never holds more than \<open>rate_per_minute\<close>
  timestamps; and a call is admitted as soon as one timestamp of a window that is not over
  full is 60 seconds old.
\<close>

theorem rate_window_correct:
  "snd (rate_limited now s) =
     s\<lparr>request_timestamps :=
         (if fst (rate_limited now s) then filter (\<lambda>t. now - t < 60) (request_timestamps s)
          else filter (\<lambda>t. now - t < 60) (request_timestamps s) @ [now])\<rparr>
   \<and> (fst (rate_limited now s) \<longleftrightarrow>
        rate_per_minute s \<le> int (length (filter (\<lambda>t. now - t < 60) (request_timestamps s))))
   \<and> (\<forall>ts rs s'. (\<forall>t\<in>set ts. t \<le> now) \<and> request_timestamps s = [] \<and>
          rate_limited_seq ts s = (rs, s') \<longrightarrow>
          (fst (rate_limited now s') \<longleftrightarrow>
             rate_per_minute s \<le> int (length (filter (\<lambda>t. now - t < 60) (admitted ts rs)))))
   \<and> (\<forall>ts rs s'. 0 \<le> rate_per_minute s \<and> request_timestamps s = [] \<and>
          rate_limited_seq ts s = (rs, s') \<longrightarrow>
          int (length (request_timestamps s')) \<le> rate_per_minute s)
   \<and> (\<forall>t. int (length (request_timestamps s)) \<le> rate_per_minute s \<and>
          t \<in> set (request_timestamps s) \<and> 60 \<le> now - t \<longrightarrow> \<not> fst (rate_limited now s))"
proof (intro conjI allI impI)
  show "snd (rate_limited now s) =
     s\<lparr>request_timestamps :=
         (if fst (rate_limited now s) then filter (\<lambda>t. now - t < 60) (request_timestamps s)
          else filter (\<lambda>t. now - t < 60) (request_timestamps s) @ [now])\<rparr>"
    by (rule rate_limited_frame)
  show "fst (rate_limited now s) \<longleftrightarrow>
        rate_per_minute s \<le> int (length (filter (\<lambda>t. now - t < 60) (request_timestamps s)))"
    by (rule rate_limited_answer)
next
  fix ts rs s'
  assume h: "(\<forall>t\<in>set ts. t \<le> now) \<and> request_timestamps s = [] \<and> rate_limited_seq ts s = (rs, s')"
  then have w: "filter (\<lambda>x. now - x < 60) (request_timestamps s') =
      filter (\<lambda>x. now - x < 60) (admitted ts rs)"
    using rate_limited_seq_window [of ts now s rs s'] by simp
  have "rate_per_minute s' = rate_per_minute s" using h rate_limited_seq_rate by blast
  then show "fst (rate_limited now s') \<longleftrightarrow>
      rate_per_minute s \<le> int (length (filter (\<lambda>t. now - t < 60) (admitted ts rs)))"
    by (simp add: rate_limited_answer w)
next
  fix ts rs s'
  assume "0 \<le> rate_per_minute s \<and> request_timestamps s = [] \<and> rate_limited_seq ts s = (rs, s')"
  then show "int (length (request_timestamps s')) \<le> rate_per_minute s"
    using rate_limited_seq_bound [of s ts rs s'] by simp
next
  fix t
  assume "int (length (request_timestamps s)) \<le> rate_per_minute s \<and>
          t \<in> set (request_timestamps s) \<and> 60 \<le> now - t"
  then show "\<not> fst (rate_limited now s)" using rate_limited_aged by blast
qed


theorem rate_window_correct_witness:
  "rate_limited_seq [0, 10, 20] plugin1 =
     ([False, False, True], plugin1\<lparr>request_timestamps := [0, 10]\<rparr>)
   \<and> fst (rate_limited 30 (plugin1\<lparr>request_timestamps := [0, 10]\<rparr>))
   \<and> \<not> fst (rate_limited 60 (plugin1\<lparr>request_timestamps := [0, 10]\<rparr>))"
proof -
  let ?s' = "plugin1\<lparr>request_timestamps := [0, 10]\<rparr>"
  have seq: "rate_limited_seq [0, 10, 20] plugin1 = ([False, False, True], ?s')"
    by (simp add: plugin1_def rate_limited_def)
  have a: "fst (rate_limited 30 ?s')"
    using rate_window_correct [of 30 plugin1, THEN conjunct2, THEN conjunct2, THEN conjunct1,
        rule_format, of "[0, 10, 20]" "[False, False, True]" ?s'] seq
    by (simp add: plugin1_def admitted_def)
  have b: "\<not> fst (rate_limited 60 ?s')"
    using rate_window_correct [of 60 ?s', THEN conjunct2, THEN conjunct2, THEN conjunct2,
        THEN conjunct2, rule_format, of 0]
    by (simp add: plugin1_def)
  show ?thesis using seq a b by simp
qed

text \<open>
  Claim C3 as stated fails where a timestamp is exactly 60 seconds old: with
  \<open>rate_per_minute = 1\<close> and one call recorded at 0, the call at 60 is admitted by the code,
  while dropping only timestamps strictly older than 60 seconds would refuse it.
\<close>

theorem rate_window_counterexample:
  "\<not> fst (rate_limited 60 plugin0) \<and> fst (rate_limited_spec 60 plugin0)"
  by (simp add: rate_limited_def rate_limited_spec_def plugin0_def)

subsection \<open>Reply matcher\<close>

lemma find_Some_split:
  "find P xs = Some x \<longleftrightarrow>
     P x \<and> (\<exists>before after. xs = before @ x # after \<and> (\<forall>y\<in>set before. \<not> P y))"
proof (induction xs)
  case Nil
  then show ?case by simp
next
  case (Cons a xs)
  show ?case
  proof (cases "P a")
    case True
    have "x = a" if "a # xs = before @ x # after" "\<forall>y\<in>set before. \<not> P y" for before after
      using that True by (cases before) auto
    then show ?thesis using True by (auto intro: exI [of _ "[]"])
  next
    case False
    have "(\<exists>before after. a # xs = before @ x # after \<and> (\<forall>y\<in>set before. \<not> P y)) \<longleftrightarrow>
          (\<exists>before after. xs = before @ x # after \<and> (\<forall>y\<in>set before. \<not> P y))" if px: "P x"
    proof
      assume "\<exists>before after. a # xs = before @ x # after \<and> (\<forall>y\<in>set before. \<not> P y)"
      then obtain before after where h: "a # xs = before @ x # after" "\<forall>y\<in>set before. \<not> P y"
        by blast
      then obtain b' where "before = a # b'" using False px by (cases before) auto
      then show "\<exists>before after. xs = before @ x # after \<and> (\<forall>y\<in>set before. \<not> P y)"
        using h by auto
    next
      assume "\<exists>before after. xs = before @ x # after \<and> (\<forall>y\<in>set before. \<not> P y)"
      then obtain before after where h: "xs = before @ x # after" "\<forall>y\<in>set before. \<not> P y"
        by blast
      then have "a # xs = (a # before) @ x # after \<and> (\<forall>y\<in>set (a # before). \<not> P y)"
        using False by simp
      then show "\<exists>before after. a # xs = before @ x # after \<and> (\<forall>y\<in>set before. \<not> P y)"
        by blast
    qed
    then show ?thesis using False Cons.IH by auto
  qed
qed

lemma first_match_find:
  "first_match ev now ps = find (\<lambda>p. accepts ev now (snd p)) ps"
  by (induction ps) (auto simp: accepts_def)

lemma delete_set_distinct:
  "distinct (map fst ps) \<Longrightarrow> (k, v) \<in> set ps \<Longrightarrow> set (AList.delete k ps) = set ps - {(k, v)}"
  by (induction ps) (auto simp: AList.delete_eq rev_image_eqI)

lemma delete_length_distinct:
  "distinct (map fst ps) \<Longrightarrow> (k, v) \<in> set ps \<Longrightarrow> Suc (length (AList.delete k ps)) = length ps"
proof (induction ps)
  case Nil
  then show ?case by simp
next
  case (Cons p ps)
  show ?case
  proof (cases "fst p = k")
    case True
    then have "k \<notin> fst ` set ps" using Cons.prems(1) by auto
    then have "AList.delete k ps = ps" by simp
    then show ?thesis using True by (cases p) simp
  next
    case False
    then have "(k, v) \<in> set ps" using Cons.prems(2) by auto
    then show ?thesis using False Cons by (cases p) simp
  qed
qed

text \<open>
  Claim C2. The test the matcher applies to one entry is the conjunction of the four
  conditions: the sender is the entry's \<open>bot_id\<close>, the group is its \<open>group_id\<close>, the clock is
  not past \<open>expire_at\<close>, and a \<open>return_mode\<close> of \<open>"@"\<close> needs a message addressed to the bot.
  The loop resolves the first entry in table order that passes the test: an entry is
  resolved exactly when it passes and no entry before it does, nothing is resolved exactly
  when no entry passes (the plugin is then unchanged and the event is not stopped), and a
  resolved message removes that one entry, sends one result message and stops the event.
\<close>

theorem reply_matching:
  "(accepts ev now info \<longleftrightarrow>
      get_sender_id ev = PyInt (bot_id info) \<and> get_group_id ev = PyInt (group_id info) \<and>
      \<not> expire_at info < now \<and> (return_mode info = ''@'' \<longrightarrow> is_at_me ev))
   \<and> first_match ev now ps = find (\<lambda>p. accepts ev now (snd p)) ps
   \<and> (first_match ev now ps = None \<longleftrightarrow> (\<forall>p\<in>set ps. \<not> accepts ev now (snd p)))
   \<and> (\<forall>rid i. first_match ev now ps = Some (rid, i) \<longleftrightarrow>
         accepts ev now i \<and>
         (\<exists>before after. ps = before @ (rid, i) # after \<and> (\<forall>p\<in>set before. \<not> accepts ev now (snd p))))
   \<and> (first_match ev now (pending_requests s) = None \<longrightarrow> on_all_message ev now s = (False, s))
   \<and> (\<forall>rid i. first_match ev now (pending_requests s) = Some (rid, i) \<longrightarrow>
         fst (on_all_message ev now s) \<and>
         pending_requests (snd (on_all_message ev now s)) = AList.delete rid (pending_requests s) \<and>
         sent (snd (on_all_message ev now s)) = sent s @
           [\<lparr>to_group = source_group i,
             body = result_prefix @ (case message_str ev of None \<Rightarrow> [] | Some m \<Rightarrow> m),
             request = rid, kind = Result, sent_at = now\<rparr>] \<and>
         (distinct (map fst (pending_requests s)) \<longrightarrow>
            set (pending_requests (snd (on_all_message ev now s))) = set (pending_requests s) - {(rid, i)} \<and>
            Suc (length (pending_requests (snd (on_all_message ev now s)))) = length (pending_requests s)))"
proof (intro conjI allI impI)
  show "accepts ev now info \<longleftrightarrow>
      get_sender_id ev = PyInt (bot_id info) \<and> get_group_id ev = PyInt (group_id info) \<and>
      \<not> expire_at info < now \<and> (return_mode info = ''@'' \<longrightarrow> is_at_me ev)"
    by (auto simp: accepts_def)
  show "first_match ev now ps = find (\<lambda>p. accepts ev now (snd p)) ps"
    by (rule first_match_find)
  show "first_match ev now ps = None \<longleftrightarrow> (\<forall>p\<in>set ps. \<not> accepts ev now (snd p))"
    by (auto simp: first_match_find find_None_iff)
next
  fix rid i
  show "first_match ev now ps = Some (rid, i) \<longleftrightarrow>
         accepts ev now i \<and>
         (\<exists>before after. ps = before @ (rid, i) # after \<and> (\<forall>p\<in>set before. \<not> accepts ev now (snd p)))"
    unfolding first_match_find find_Some_split [of "\<lambda>p. accepts ev now (snd p)" ps "(rid, i)"]
    by simp
next
  assume "first_match ev now (pending_requests s) = None"
  then show "on_all_message ev now s = (False, s)" by (simp add: on_all_message_def)
next
  fix rid i
  assume m: "first_match ev now (pending_requests s) = Some (rid, i)"
  show "fst (on_all_message ev now s)" using m by (simp add: on_all_message_def)
  show p: "pending_requests (snd (on_all_message ev now s)) = AList.delete rid (pending_requests s)"
    using m by (simp add: on_all_message_def dict_pop_def)
  show "sent (snd (on_all_message ev now s)) = sent s @
           [\<lparr>to_group = source_group i,
             body = result_prefix @ (case message_str ev of None \<Rightarrow> [] | Some m \<Rightarrow> m),
             request = rid, kind = Result, sent_at = now\<rparr>]"
    using m by (simp add: on_all_message_def)
  have mem: "(rid, i) \<in> set (pending_requests s)"
    using m unfolding first_match_find find_Some_split by auto
  {
    assume d: "distinct (map fst (pending_requests s))"
    show "set (pending_requests (snd (on_all_message ev now s))) = set (pending_requests s) - {(rid, i)}"
      unfolding p using delete_set_distinct [OF d mem] .
    show "Suc (length (pending_requests (snd (on_all_message ev now s)))) = length (pending_requests s)"
      unfolding p using delete_length_distinct [OF d mem] .
  }
qed

text \<open>
  Three entries for the same bot and group: the first wants the bot addressed and is
  skipped, the second is resolved, the third also passes the test and stays.
\<close>

theorem reply_matching_witness:
  "\<not> accepts ev_pong 50 info_a \<and> accepts ev_pong 50 info_b \<and> accepts ev_pong 50 info_c
   \<and> \<not> accepts ev_pong 101 info_b
   \<and> first_match ev_pong 50 ps3 = Some (''r2'', info_b)
   \<and> fst (on_all_message ev_pong 50 plugin3)
   \<and> pending_requests (snd (on_all_message ev_pong 50 plugin3)) = [(''r1'', info_a), (''r3'', info_c)]
   \<and> length (sent (snd (on_all_message ev_pong 50 plugin3))) = 1"
proof -
  have acc: "\<not> accepts ev_pong 50 info_a" "accepts ev_pong 50 info_b" "accepts ev_pong 50 info_c"
    "\<not> accepts ev_pong 101 info_b"
    by (simp_all add: accepts_def ev_pong_def info_a_def info_b_def info_c_def)
  have split: "ps3 = [(''r1'', info_a)] @ (''r2'', info_b) # [(''r3'', info_c)] \<and>
      (\<forall>p\<in>set [(''r1'', info_a)]. \<not> accepts ev_pong 50 (snd p))"
    using acc by (simp add: ps3_def)
  have fm: "first_match ev_pong 50 ps3 = Some (''r2'', info_b)"
    using reply_matching [of ev_pong 50 info_b ps3 plugin3, THEN conjunct2, THEN conjunct2,
        THEN conjunct2, THEN conjunct1, rule_format, of "''r2''" info_b] acc(2) split
    by blast
  have d: "distinct (map fst (pending_requests plugin3))"
    by (simp add: plugin3_def ps3_def)
  have fm': "first_match ev_pong 50 (pending_requests plugin3) = Some (''r2'', info_b)"
    using fm by (simp add: plugin3_def)
  have on: "fst (on_all_message ev_pong 50 plugin3) \<and>
      pending_requests (snd (on_all_message ev_pong 50 plugin3)) = AList.delete ''r2'' (pending_requests plugin3) \<and>
      length (sent (snd (on_all_message ev_pong 50 plugin3))) = 1"
    using reply_matching [of ev_pong 50 info_b ps3 plugin3, THEN conjunct2, THEN conjunct2,
        THEN conjunct2, THEN conjunct2, THEN conjunct2, rule_format, OF fm']
    by (simp add: plugin3_def plugin2_def)
  have "AList.delete ''r2'' (pending_requests plugin3) = [(''r1'', info_a), (''r3'', info_c)]"
    by (simp add: plugin3_def ps3_def)
  then show ?thesis using acc fm on by simp
qed

subsection \<open>Dispatcher\<close>

lemma rate_limited_fields:
  "actions (snd (rate_limited now s)) = actions s"
  "pending_requests (snd (rate_limited now s)) = pending_requests s"
  "sent (snd (rate_limited now s)) = sent s"
  "tasks (snd (rate_limited now s)) = tasks s"
  "unreachable_message (snd (rate_limited now s)) = unreachable_message s"
  "timeout_message (snd (rate_limited now s)) = timeout_message s"
  by (simp_all add: rate_limited_def Let_def)

lemma use_bot_action_limited:
  "fst (rate_limited now s) \<Longrightarrow>
   use_bot_action ev d rid pick now s = (RateLimited, snd (rate_limited now s))"
  by (cases "rate_limited now s") (simp add: use_bot_action_def)

lemma use_bot_action_not_found:
  "\<not> fst (rate_limited now s) \<Longrightarrow> find_action d (actions s) = None \<Longrightarrow>
   use_bot_action ev d rid pick now s = (NotFound, snd (rate_limited now s))"
  using rate_limited_fields(1) [of now s]
  by (cases "rate_limited now s") (simp add: use_bot_action_def)

lemma use_bot_action_unreachable:
  "\<not> fst (rate_limited now s) \<Longrightarrow> find_action d (actions s) = Some a \<Longrightarrow> act_groups a = [] \<Longrightarrow>
   use_bot_action ev d rid pick now s = (Unreachable, snd (rate_limited now s))"
  using rate_limited_fields(1) [of now s]
  by (cases "rate_limited now s") (simp add: use_bot_action_def)

lemma use_bot_action_dispatched:
  "\<not> fst (rate_limited now s) \<Longrightarrow> find_action d (actions s) = Some a \<Longrightarrow> act_groups a \<noteq> [] \<Longrightarrow>
   use_bot_action ev d rid pick now s =
     (Dispatched rid,
      (snd (rate_limited now s))
        \<lparr>pending_requests :=
            AList.update rid
              \<lparr>bot_id = act_bot_id a, group_id = act_groups a ! (pick mod length (act_groups a)),
               source_group = get_group_id ev, return_mode = act_return_mode a,
               expire_at = now + real_of_int (act_timeout a)\<rparr>
              (pending_requests s),
          sent := sent s @
            [\<lparr>to_group = PyInt (act_groups a ! (pick mod length (act_groups a))),
              body = act_command a, request = rid, kind = Command, sent_at = now\<rparr>],
          tasks := (tasks s)(rid \<mapsto> AwaitingSend)\<rparr>)"
  using rate_limited_fields [of now s]
  by (cases "rate_limited now s") (simp add: use_bot_action_def Let_def)

lemma use_bot_action_cases:
  obtains (limited) "fst (rate_limited now s)"
      "use_bot_action ev d rid pick now s = (RateLimited, snd (rate_limited now s))"
  | (not_found) "\<not> fst (rate_limited now s)" "find_action d (actions s) = None"
      "use_bot_action ev d rid pick now s = (NotFound, snd (rate_limited now s))"
  | (unreachable) a where "\<not> fst (rate_limited now s)" "find_action d (actions s) = Some a"
      "act_groups a = []"
      "use_bot_action ev d rid pick now s = (Unreachable, snd (rate_limited now s))"
  | (dispatched) a where "\<not> fst (rate_limited now s)" "find_action d (actions s) = Some a"
      "act_groups a \<noteq> []" "fst (use_bot_action ev d rid pick now s) = Dispatched rid"
proof (cases "fst (rate_limited now s)")
  case True
  then show ?thesis using limited use_bot_action_limited by blast
next
  case nl: False
  show ?thesis
  proof (cases "find_action d (actions s)")
    case None
    then show ?thesis using nl not_found use_bot_action_not_found by blast
  next
    case (Some a)
    show ?thesis
    proof (cases "act_groups a = []")
      case True
      then show ?thesis using nl Some unreachable use_bot_action_unreachable by blast
    next
      case False
      then show ?thesis using nl Some dispatched use_bot_action_dispatched [of now s d a ev rid pick]
        by simp
    qed
  qed
qed

lemma find_action_None: "find_action d as = None \<longleftrightarrow> (\<forall>a\<in>set as. \<not> sublist d (act_desc a))"
  by (auto simp: find_action_def find_None_iff)

lemma find_action_Some:
  "find_action d as = Some a \<longleftrightarrow>
     sublist d (act_desc a) \<and>
     (\<exists>before after. as = before @ a # after \<and> (\<forall>b\<in>set before. \<not> sublist d (act_desc b)))"
  unfolding find_action_def find_Some_split ..

text \<open>
  Claim C6. \<open>action_desc in a["desc"]\<close> holds exactly when the description occurs in \<open>desc\<close>
  as a contiguous run of the same characters. The lookup returns the first action in
  registration order whose \<open>desc\<close> contains the description, and none exactly when no
  action's \<open>desc\<close> contains it. For a call that the rate limiter admits, the dispatcher
  answers "not found" exactly in that case, and otherwise works with the first match: its
  fields fill the table entry and its command is what is sent.
\<close>

theorem lookup_first_match:
  "(\<forall>x. sublist d x \<longleftrightarrow> (\<exists>p q. x = p @ d @ q))
   \<and> (find_action d as = None \<longleftrightarrow> (\<forall>a\<in>set as. \<not> sublist d (act_desc a)))
   \<and> (\<forall>a. find_action d as = Some a \<longleftrightarrow>
         sublist d (act_desc a) \<and>
         (\<exists>before after. as = before @ a # after \<and> (\<forall>b\<in>set before. \<not> sublist d (act_desc b))))
   \<and> (\<not> fst (rate_limited now s) \<longrightarrow>
         (fst (use_bot_action ev d rid pick now s) = NotFound \<longleftrightarrow>
            (\<forall>a\<in>set (actions s). \<not> sublist d (act_desc a))))
   \<and> (\<forall>a. \<not> fst (rate_limited now s) \<and> find_action d (actions s) = Some a \<and> act_groups a \<noteq> [] \<longrightarrow>
         fst (use_bot_action ev d rid pick now s) = Dispatched rid \<and>
         map_of (pending_requests (snd (use_bot_action ev d rid pick now s))) rid =
           Some \<lparr>bot_id = act_bot_id a, group_id = act_groups a ! (pick mod length (act_groups a)),
                 source_group = get_group_id ev, return_mode = act_return_mode a,
                 expire_at = now + real_of_int (act_timeout a)\<rparr> \<and>
         sent (snd (use_bot_action ev d rid pick now s)) = sent s @
           [\<lparr>to_group = PyInt (act_groups a ! (pick mod length (act_groups a))),
             body = act_command a, request = rid, kind = Command, sent_at = now\<rparr>] \<and>
         act_groups a ! (pick mod length (act_groups a)) \<in> set (act_groups a))"
proof (intro conjI allI impI)
  fix x
  show "sublist d x \<longleftrightarrow> (\<exists>p q. x = p @ d @ q)" by (simp add: sublist_def)
next
  show "find_action d as = None \<longleftrightarrow> (\<forall>a\<in>set as. \<not> sublist d (act_desc a))"
    by (rule find_action_None)
next
  fix a
  show "find_action d as = Some a \<longleftrightarrow>
         sublist d (act_desc a) \<and>
         (\<exists>before after. as = before @ a # after \<and> (\<forall>b\<in>set before. \<not> sublist d (act_desc b)))"
    by (rule find_action_Some)
next
  assume nl: "\<not> fst (rate_limited now s)"
  show "fst (use_bot_action ev d rid pick now s) = NotFound \<longleftrightarrow>
            (\<forall>a\<in>set (actions s). \<not> sublist d (act_desc a))"
  proof (cases rule: use_bot_action_cases [of now s ev d rid pick])
    case limited
    then show ?thesis using nl by simp
  next
    case not_found
    then show ?thesis by (simp add: find_action_None)
  next
    case (unreachable a)
    then have "find_action d (actions s) \<noteq> None" by simp
    then show ?thesis using unreachable(4) unfolding find_action_None by simp
  next
    case (dispatched a)
    then have "find_action d (actions s) \<noteq> None" by simp
    then show ?thesis using dispatched(4) unfolding find_action_None by simp
  qed
next
  fix a
  assume h: "\<not> fst (rate_limited now s) \<and> find_action d (actions s) = Some a \<and> act_groups a \<noteq> []"
  note u = use_bot_action_dispatched [of now s d a ev rid pick]
  show "fst (use_bot_action ev d rid pick now s) = Dispatched rid" using h u by simp
  show "map_of (pending_requests (snd (use_bot_action ev d rid pick now s))) rid =
           Some \<lparr>bot_id = act_bot_id a, group_id = act_groups a ! (pick mod length (act_groups a)),
                 source_group = get_group_id ev, return_mode = act_return_mode a,
                 expire_at = now + real_of_int (act_timeout a)\<rparr>"
    using h u by (simp add: update_conv')
  show "sent (snd (use_bot_action ev d rid pick now s)) = sent s @
           [\<lparr>to_group = PyInt (act_groups a ! (pick mod length (act_groups a))),
             body = act_command a, request = rid, kind = Command, sent_at = now\<rparr>]"
    using h u by simp
  show "act_groups a ! (pick mod length (act_groups a)) \<in> set (act_groups a)"
    using h by simp
qed

theorem lookup_first_match_witness:
  "\<not> sublist ''Test'' (act_desc action_ping) \<and> sublist ''test'' (act_desc action_ping)
   \<and> sublist ''test'' (act_desc action_at)
   \<and> find_action ''test'' [action_ping, action_at] = Some action_ping
   \<and> find_action ''Test'' [action_ping, action_at] = None
   \<and> fst (use_bot_action ev_user ''Test'' ''r1'' 0 7 plugin2) = NotFound
   \<and> fst (use_bot_action ev_user ''test'' ''r1'' 3 7 plugin2) = Dispatched ''r1''
   \<and> map_of (pending_requests (snd (use_bot_action ev_user ''test'' ''r1'' 3 7 plugin2))) ''r1'' =
       Some \<lparr>bot_id = 1001, group_id = 2002, source_group = PyInt 3003, return_mode = [],
             expire_at = 12\<rparr>"
proof -
  have sub: "\<not> sublist ''Test'' (act_desc action_ping)" "sublist ''test'' (act_desc action_ping)"
    "sublist ''test'' (act_desc action_at)" "\<not> sublist ''Test'' (act_desc action_at)"
    by (simp_all add: action_ping_def action_at_def sublist_code)
  have nl: "\<not> fst (rate_limited 7 plugin2)" by (simp add: rate_limited_def plugin2_def)
  have f1: "find_action ''test'' [action_ping, action_at] = Some action_ping"
    using lookup_first_match [of "''test''" "[action_ping, action_at]" 7 plugin2 ev_user "''r1''" 3,
        THEN conjunct2, THEN conjunct2, THEN conjunct1, rule_format, of action_ping] sub(2)
    by (auto intro: exI [of _ "[]"])
  have f2: "find_action ''Test'' [action_ping, action_at] = None"
    using lookup_first_match [of "''Test''" "[action_ping, action_at]" 7 plugin2 ev_user "''r1''" 0,
        THEN conjunct2, THEN conjunct1] sub(1,4)
    by simp
  have nf: "fst (use_bot_action ev_user ''Test'' ''r1'' 0 7 plugin2) = NotFound"
    using lookup_first_match [of "''Test''" "[action_ping, action_at]" 7 plugin2 ev_user "''r1''" 0,
        THEN conjunct2, THEN conjunct2, THEN conjunct2, THEN conjunct1, rule_format, OF nl] sub(1,4)
    by (simp add: plugin2_def)
  have f1': "find_action ''test'' (actions plugin2) = Some action_ping"
    using f1 by (simp add: plugin2_def)
  have g: "act_groups action_ping \<noteq> []" by (simp add: action_ping_def)
  have "length (act_groups action_ping) = 2" by (simp add: action_ping_def)
  moreover have "(3::nat) mod 2 = 1" by simp
  moreover have "act_groups action_ping ! 1 = 2002" by (simp add: action_ping_def)
  ultimately have pk: "act_groups action_ping ! (3 mod length (act_groups action_ping)) = 2002"
    by (simp only:)
  have dp: "fst (use_bot_action ev_user ''test'' ''r1'' 3 7 plugin2) = Dispatched ''r1'' \<and>
      map_of (pending_requests (snd (use_bot_action ev_user ''test'' ''r1'' 3 7 plugin2))) ''r1'' =
       Some \<lparr>bot_id = 1001, group_id = 2002, source_group = PyInt 3003, return_mode = [],
             expire_at = 12\<rparr>"
    using lookup_first_match [of "''test''" "[action_ping, action_at]" 7 plugin2 ev_user "''r1''" 3,
        THEN conjunct2, THEN conjunct2, THEN conjunct2, THEN conjunct2, rule_format,
        of action_ping] nl f1' g
    unfolding pk by (simp add: action_ping_def ev_user_def)
  show ?thesis using sub f1 f2 nf dp by simp
qed

text \<open>
  Claim C4. The three failure branches and when each is taken; in each of them the
  table, the messages sent and the tasks are as before the call (the plugin is what the
  rate limiter left), and the caller gets the notice of the branch.
\<close>

theorem failed_dispatch_frame:
  "(fst (use_bot_action ev d rid pick now s) = RateLimited \<longleftrightarrow> fst (rate_limited now s))
   \<and> (fst (use_bot_action ev d rid pick now s) = NotFound \<longleftrightarrow>
        \<not> fst (rate_limited now s) \<and> (\<forall>a\<in>set (actions s). \<not> sublist d (act_desc a)))
   \<and> (fst (use_bot_action ev d rid pick now s) = Unreachable \<longleftrightarrow>
        \<not> fst (rate_limited now s) \<and>
        (\<exists>a. find_action d (actions s) = Some a \<and> act_groups a = []))
   \<and> (fst (use_bot_action ev d rid pick now s) \<in> {RateLimited, NotFound, Unreachable} \<longrightarrow>
        pending_requests (snd (use_bot_action ev d rid pick now s)) = pending_requests s \<and>
        sent (snd (use_bot_action ev d rid pick now s)) = sent s \<and>
        tasks (snd (use_bot_action ev d rid pick now s)) = tasks s \<and>
        snd (use_bot_action ev d rid pick now s) = snd (rate_limited now s) \<and>
        notice (snd (use_bot_action ev d rid pick now s)) (fst (use_bot_action ev d rid pick now s)) =
          Some (case fst (use_bot_action ev d rid pick now s) of
                  RateLimited \<Rightarrow> rate_notice
                | NotFound \<Rightarrow> not_found_notice
                | _ \<Rightarrow> unreachable_message s))"
proof (cases rule: use_bot_action_cases [of now s ev d rid pick])
  case limited
  then show ?thesis by (simp add: rate_limited_fields notice_def)
next
  case not_found
  then have b: "\<not> (\<exists>a. find_action d (actions s) = Some a \<and> act_groups a = [])" by simp
  have a: "\<forall>a\<in>set (actions s). \<not> sublist d (act_desc a)"
    using not_found(2) unfolding find_action_None .
  show ?thesis using not_found(1,3) a b by (simp add: rate_limited_fields notice_def)
next
  case (unreachable a)
  then have "find_action d (actions s) \<noteq> None" by simp
  then have "\<not> (\<forall>a\<in>set (actions s). \<not> sublist d (act_desc a))" unfolding find_action_None .
  then show ?thesis using unreachable by (simp add: rate_limited_fields notice_def)
next
  case (dispatched a)
  then have "find_action d (actions s) \<noteq> None" by simp
  then have "\<not> (\<forall>a\<in>set (actions s). \<not> sublist d (act_desc a))" unfolding find_action_None .
  then show ?thesis using dispatched by simp
qed

theorem failed_dispatch_frame_witness:
  "fst (use_bot_action ev_user ''test'' ''r1'' 0 10 plugin0) = RateLimited
   \<and> snd (use_bot_action ev_user ''test'' ''r1'' 0 10 plugin0) = plugin0
   \<and> fst (use_bot_action ev_user ''Test'' ''r1'' 0 7 plugin2) = NotFound
   \<and> fst (use_bot_action ev_user ''weather'' ''r1'' 0 7 plugin2) = Unreachable
   \<and> snd (use_bot_action ev_user ''weather'' ''r1'' 0 7 plugin2) = plugin2\<lparr>request_timestamps := [7]\<rparr>
   \<and> notice (snd (use_bot_action ev_user ''weather'' ''r1'' 0 7 plugin2)) Unreachable = Some ''unreachable''"
proof -
  have l0: "fst (rate_limited 10 plugin0)" and s0: "snd (rate_limited 10 plugin0) = plugin0"
    by (simp_all add: rate_limited_def plugin0_def)
  have l2: "\<not> fst (rate_limited 7 plugin2)"
    and s2: "snd (rate_limited 7 plugin2) = plugin2\<lparr>request_timestamps := [7]\<rparr>"
    by (simp_all add: rate_limited_def plugin2_def)
  have a: "fst (use_bot_action ev_user ''test'' ''r1'' 0 10 plugin0) = RateLimited"
    using failed_dispatch_frame [of ev_user "''test''" "''r1''" 0 10 plugin0, THEN conjunct1] l0
    by simp
  have a': "snd (use_bot_action ev_user ''test'' ''r1'' 0 10 plugin0) = plugin0"
    using failed_dispatch_frame [of ev_user "''test''" "''r1''" 0 10 plugin0, THEN conjunct2,
        THEN conjunct2, THEN conjunct2] a s0
    by simp
  have b: "fst (use_bot_action ev_user ''Test'' ''r1'' 0 7 plugin2) = NotFound"
    using failed_dispatch_frame [of ev_user "''Test''" "''r1''" 0 7 plugin2, THEN conjunct2,
        THEN conjunct1] l2
    by (simp add: plugin2_def action_ping_def action_at_def sublist_code)
  have "find_action ''weather'' (actions plugin2) = Some action_at \<and> act_groups action_at = []"
    by (simp add: find_action_def plugin2_def action_ping_def action_at_def sublist_code)
  then have c: "fst (use_bot_action ev_user ''weather'' ''r1'' 0 7 plugin2) = Unreachable"
    using failed_dispatch_frame [of ev_user "''weather''" "''r1''" 0 7 plugin2, THEN conjunct2,
        THEN conjunct2, THEN conjunct1] l2
    by blast
  have c': "snd (use_bot_action ev_user ''weather'' ''r1'' 0 7 plugin2) = plugin2\<lparr>request_timestamps := [7]\<rparr>
      \<and> notice (snd (use_bot_action ev_user ''weather'' ''r1'' 0 7 plugin2)) Unreachable = Some ''unreachable''"
    using failed_dispatch_frame [of ev_user "''weather''" "''r1''" 0 7 plugin2, THEN conjunct2,
        THEN conjunct2, THEN conjunct2] c s2
    by (simp add: plugin2_def notice_def)
  show ?thesis using a a' b c c' by blast
qed

subsection \<open>Removal from the table\<close>

lemma first_match_mem: "first_match ev t ps = Some (r, i) \<Longrightarrow> (r, i) \<in> set ps"
  unfolding first_match_find find_Some_split by auto

lemma delete_absent: "map_of d k = None \<Longrightarrow> AList.delete k d = d"
  by (simp add: map_of_eq_None_iff)

lemma wake_absent:
  "map_of (pending_requests s) rid = None \<Longrightarrow>
   pending_requests (wait_timeout_wake rid now s) = pending_requests s \<and>
   sent (wait_timeout_wake rid now s) = sent s"
  by (simp add: wait_timeout_wake_def split: option.splits task_state.splits)

lemma wake_removes:
  "tasks s rid = Some (Sleeping info w) \<Longrightarrow> w \<le> now \<Longrightarrow>
   map_of (pending_requests (wait_timeout_wake rid now s)) rid = None \<and>
   tasks (wait_timeout_wake rid now s) rid = Some Returned"
  by (simp add: wait_timeout_wake_def dict_pop_def delete_conv')

lemma wake_returned:
  "tasks s rid = Some Returned \<Longrightarrow> wait_timeout_wake rid now s = s"
  by (simp add: wait_timeout_wake_def)

text \<open>
  Claim C9. Popping with a default a key that is absent returns \<open>None\<close> and the same
  dictionary, so popping twice is popping once. A watchdog that wakes with its key absent
  leaves the table and the messages sent as they are; this is the case after the matcher
  resolved the request. After the watchdog has removed the key, no message is matched to
  that request and a second wake changes nothing.
\<close>

theorem removal_idempotent:
  "(map_of d k = None \<longrightarrow> dict_pop k d = (None, d))
   \<and> dict_pop k (snd (dict_pop k d)) = (None, snd (dict_pop k d))
   \<and> (map_of (pending_requests s) rid = None \<longrightarrow>
        pending_requests (wait_timeout_wake rid now s) = pending_requests s \<and>
        sent (wait_timeout_wake rid now s) = sent s)
   \<and> (\<forall>i. first_match ev t (pending_requests s) = Some (rid, i) \<longrightarrow>
        map_of (pending_requests (snd (on_all_message ev t s))) rid = None \<and>
        pending_requests (wait_timeout_wake rid now (snd (on_all_message ev t s))) =
          pending_requests (snd (on_all_message ev t s)) \<and>
        sent (wait_timeout_wake rid now (snd (on_all_message ev t s))) =
          sent (snd (on_all_message ev t s)))
   \<and> (\<forall>info w. tasks s rid = Some (Sleeping info w) \<and> w \<le> now \<longrightarrow>
        map_of (pending_requests (wait_timeout_wake rid now s)) rid = None \<and>
        (\<forall>i. first_match ev t (pending_requests (wait_timeout_wake rid now s)) \<noteq> Some (rid, i)) \<and>
        wait_timeout_wake rid now' (wait_timeout_wake rid now s) = wait_timeout_wake rid now s)"
proof (intro conjI allI impI)
  assume "map_of d k = None"
  then show "dict_pop k d = (None, d)" by (simp add: dict_pop_def delete_absent)
next
  show "dict_pop k (snd (dict_pop k d)) = (None, snd (dict_pop k d))"
    by (simp add: dict_pop_def delete_conv' delete_idem)
next
  assume a: "map_of (pending_requests s) rid = None"
  show "pending_requests (wait_timeout_wake rid now s) = pending_requests s"
    using wake_absent [OF a] by simp
  show "sent (wait_timeout_wake rid now s) = sent s"
    using wake_absent [OF a] by simp
next
  fix i
  assume m: "first_match ev t (pending_requests s) = Some (rid, i)"
  show gone: "map_of (pending_requests (snd (on_all_message ev t s))) rid = None"
    using m by (simp add: on_all_message_def dict_pop_def delete_conv')
  show "pending_requests (wait_timeout_wake rid now (snd (on_all_message ev t s))) =
          pending_requests (snd (on_all_message ev t s))"
    using wake_absent [OF gone] by simp
  show "sent (wait_timeout_wake rid now (snd (on_all_message ev t s))) =
          sent (snd (on_all_message ev t s))"
    using wake_absent [OF gone] by simp
next
  fix info w
  assume h: "tasks s rid = Some (Sleeping info w) \<and> w \<le> now"
  then have r: "map_of (pending_requests (wait_timeout_wake rid now s)) rid = None"
    and f: "tasks (wait_timeout_wake rid now s) rid = Some Returned"
    using wake_removes [of s rid info w now] by simp_all
  show "map_of (pending_requests (wait_timeout_wake rid now s)) rid = None" by (rule r)
  show "wait_timeout_wake rid now' (wait_timeout_wake rid now s) = wait_timeout_wake rid now s"
    using wake_returned [OF f] .
  fix i
  show "first_match ev t (pending_requests (wait_timeout_wake rid now s)) \<noteq> Some (rid, i)"
  proof
    assume "first_match ev t (pending_requests (wait_timeout_wake rid now s)) = Some (rid, i)"
    then have "(rid, i) \<in> set (pending_requests (wait_timeout_wake rid now s))"
      by (rule first_match_mem)
    then show False using r by (simp add: map_of_eq_None_iff rev_image_eqI)
  qed
qed

theorem removal_idempotent_witness:
  "dict_pop ''r9'' ps3 = (None, ps3)
   \<and> pending_requests (snd (on_all_message ev_pong 50 plugin4)) = [(''r1'', info_a), (''r3'', info_c)]
   \<and> pending_requests (wait_timeout_wake ''r2'' 100 (snd (on_all_message ev_pong 50 plugin4))) =
       [(''r1'', info_a), (''r3'', info_c)]
   \<and> sent (wait_timeout_wake ''r2'' 100 (snd (on_all_message ev_pong 50 plugin4))) =
       sent (snd (on_all_message ev_pong 50 plugin4))
   \<and> (\<forall>i. first_match ev_pong 50 (pending_requests (wait_timeout_wake ''r2'' 100 plugin4)) \<noteq> Some (''r2'', i))"
proof -
  have a: "map_of ps3 ''r9'' = None" by (simp add: ps3_def)
  have m: "first_match ev_pong 50 (pending_requests plugin4) = Some (''r2'', info_b)"
    by (simp add: plugin4_def plugin3_def ps3_def ev_pong_def info_a_def info_b_def)
  have p: "pending_requests (snd (on_all_message ev_pong 50 plugin4)) = [(''r1'', info_a), (''r3'', info_c)]"
    using m by (simp add: on_all_message_def dict_pop_def plugin4_def plugin3_def ps3_def)
  have t: "tasks plugin4 ''r2'' = Some (Sleeping info_b 100) \<and> (100::real) \<le> 100"
    by (simp add: plugin4_def)
  note ri = removal_idempotent [of ps3 "''r9''" plugin4 "''r2''" 100 ev_pong 50 100]
  have 1: "dict_pop ''r9'' ps3 = (None, ps3)" using ri [THEN conjunct1] a by simp
  have 2: "pending_requests (wait_timeout_wake ''r2'' 100 (snd (on_all_message ev_pong 50 plugin4))) =
          pending_requests (snd (on_all_message ev_pong 50 plugin4)) \<and>
        sent (wait_timeout_wake ''r2'' 100 (snd (on_all_message ev_pong 50 plugin4))) =
          sent (snd (on_all_message ev_pong 50 plugin4))"
    using ri [THEN conjunct2, THEN conjunct2, THEN conjunct2, THEN conjunct1, rule_format, OF m]
    by simp
  have 3: "\<forall>i. first_match ev_pong 50 (pending_requests (wait_timeout_wake ''r2'' 100 plugin4)) \<noteq> Some (''r2'', i)"
    using ri [THEN conjunct2, THEN conjunct2, THEN conjunct2, THEN conjunct2, rule_format, OF t]
    by simp
  show ?thesis using 1 2 3 p by simp
qed

subsection \<open>Splitting\<close>

lemma split_hit:
  "c \<notin> set x \<Longrightarrow> py_split_max c (Suc n) (x @ c # rest) = x # py_split_max c n rest"
proof -
  assume a: "c \<notin> set x"
  then have "takeWhile (\<lambda>y. y \<noteq> c) (x @ c # rest) = x"
    by (induction x) auto
  moreover have "dropWhile (\<lambda>y. y \<noteq> c) (x @ c # rest) = c # rest"
    using a by (induction x) auto
  ultimately show ?thesis by simp
qed

lemma split_miss: "c \<notin> set s \<Longrightarrow> py_split_max c n s = [s]"
  by (cases n) simp_all

lemma split_nonempty: "py_split_max c n s \<noteq> []"
  by (cases n) simp_all

lemma split_decompose:
  assumes "c \<in> set s"
  shows "s = takeWhile (\<lambda>y. y \<noteq> c) s @ c # tl (dropWhile (\<lambda>y. y \<noteq> c) s)"
proof -
  have ne: "dropWhile (\<lambda>y. y \<noteq> c) s \<noteq> []" using assms by (simp add: dropWhile_eq_Nil_conv)
  then have "hd (dropWhile (\<lambda>y. y \<noteq> c) s) = c" using hd_dropWhile [of "\<lambda>y. y \<noteq> c" s] by simp
  then have "dropWhile (\<lambda>y. y \<noteq> c) s = c # tl (dropWhile (\<lambda>y. y \<noteq> c) s)"
    using ne by (metis list.collapse)
  then show ?thesis using takeWhile_dropWhile_id [of "\<lambda>y. y \<noteq> c" s] by simp
qed

lemma split_two:
  "py_split_max c (Suc n) s = x # y # ys \<longleftrightarrow>
     c \<notin> set x \<and> (\<exists>rest. s = x @ c # rest \<and> py_split_max c n rest = y # ys)"
proof
  assume l: "py_split_max c (Suc n) s = x # y # ys"
  then have m: "c \<in> set s" by (auto split: if_splits)
  from l m have x: "x = takeWhile (\<lambda>y. y \<noteq> c) s"
    and r: "py_split_max c n (tl (dropWhile (\<lambda>y. y \<noteq> c) s)) = y # ys" by simp_all
  have "c \<notin> set x" unfolding x by (auto dest: set_takeWhileD)
  moreover have "s = x @ c # tl (dropWhile (\<lambda>y. y \<noteq> c) s)"
    unfolding x using split_decompose [OF m] .
  ultimately show "c \<notin> set x \<and> (\<exists>rest. s = x @ c # rest \<and> py_split_max c n rest = y # ys)"
    using r by blast
next
  assume "c \<notin> set x \<and> (\<exists>rest. s = x @ c # rest \<and> py_split_max c n rest = y # ys)"
  then show "py_split_max c (Suc n) s = x # y # ys" using split_hit by auto
qed

lemma split_five:
  "py_split_max c 4 l = [b, g, k, m, d] \<longleftrightarrow>
     l = b @ c # g @ c # k @ c # m @ c # d \<and> c \<notin> set b \<and> c \<notin> set g \<and> c \<notin> set k \<and> c \<notin> set m"
proof -
  have four: "(4::nat) = Suc (Suc (Suc (Suc 0)))" by simp
  show ?thesis unfolding four split_two by auto
qed

lemma join_split: "join c (py_split_max c n s) = s"
proof (induction c n s rule: py_split_max.induct)
  case (1 c s)
  then show ?case by simp
next
  case (2 c n s)
  show ?case
  proof (cases "c \<in> set s")
    case True
    obtain q qs where q: "py_split_max c n (tl (dropWhile (\<lambda>x. x \<noteq> c) s)) = q # qs"
      using split_nonempty by (meson list.exhaust)
    have "join c (q # qs) = tl (dropWhile (\<lambda>x. x \<noteq> c) s)" using 2 True q by simp
    then show ?thesis using True q split_decompose [OF True] by simp
  next
    case False
    then show ?thesis by simp
  qed
qed

lemma split_parts:
  "length s \<le> n \<Longrightarrow> p \<in> set (py_split_max c n s) \<Longrightarrow> c \<notin> set p"
proof (induction c n s rule: py_split_max.induct)
  case (1 c s)
  then show ?case by simp
next
  case (2 c n s)
  show ?case
  proof (cases "c \<in> set s")
    case True
    have ne: "dropWhile (\<lambda>x. x \<noteq> c) s \<noteq> []" using True by (simp add: dropWhile_eq_Nil_conv)
    have "length (dropWhile (\<lambda>x. x \<noteq> c) s) \<le> length s" by (rule length_dropWhile_le)
    then have len: "length (tl (dropWhile (\<lambda>x. x \<noteq> c) s)) \<le> n" using ne "2.prems"(1) by simp
    from "2.prems"(2) True
    consider "p = takeWhile (\<lambda>x. x \<noteq> c) s"
      | "p \<in> set (py_split_max c n (tl (dropWhile (\<lambda>x. x \<noteq> c) s)))" by auto
    then show ?thesis
    proof cases
      case 1
      then show ?thesis by (auto dest: set_takeWhileD)
    next
      case 2
      then show ?thesis using "2.IH" [OF True len] by simp
    qed
  next
    case False
    then show ?thesis using "2.prems"(2) by simp
  qed
qed

lemma split_join:
  "parts \<noteq> [] \<Longrightarrow> \<forall>p\<in>set parts. c \<notin> set p \<Longrightarrow> length (join c parts) \<le> n \<Longrightarrow>
   py_split_max c n (join c parts) = parts"
proof (induction c parts arbitrary: n rule: join.induct)
  case (1 c)
  then show ?case by simp
next
  case (2 c p)
  then show ?case by (simp add: split_miss)
next
  case (3 c p q ps)
  from "3.prems"(3) obtain n' where n: "n = Suc n'" by (cases n) auto
  have "length (join c (q # ps)) \<le> n'" using "3.prems"(3) n by simp
  then have "py_split_max c n' (join c (q # ps)) = q # ps" using 3 by simp
  then show ?case using "3.prems"(2) n by (simp add: split_hit del: py_split_max.simps)
qed

lemma py_split_iff:
  "py_split c s = parts \<longleftrightarrow> parts \<noteq> [] \<and> (\<forall>p\<in>set parts. c \<notin> set p) \<and> s = join c parts"
proof
  assume "py_split c s = parts"
  then show "parts \<noteq> [] \<and> (\<forall>p\<in>set parts. c \<notin> set p) \<and> s = join c parts"
    using split_nonempty [of c "length s" s] join_split [of c "length s" s]
      split_parts [of s "length s" _ c]
    by (auto simp: py_split_def)
next
  assume "parts \<noteq> [] \<and> (\<forall>p\<in>set parts. c \<notin> set p) \<and> s = join c parts"
  then show "py_split c s = parts" using split_join [of parts c "length s"] by (simp add: py_split_def)
qed

subsection \<open>Lines\<close>

lemma int_list_ok:
  "\<forall>g\<in>set gs. g \<noteq> [] \<longrightarrow> int_of_str py g \<noteq> None \<Longrightarrow>
   int_list py gs = Inr (map (\<lambda>p. the (int_of_str py p)) (filter (\<lambda>p. p \<noteq> []) gs))"
  by (induction gs) auto

lemma int_list_Inr:
  "int_list py gs = Inr is \<Longrightarrow> \<forall>g\<in>set gs. g \<noteq> [] \<longrightarrow> int_of_str py g \<noteq> None"
  by (induction gs arbitrary: "is") (auto split: option.splits sum.splits if_splits)

lemma int_list_iff:
  "int_list py gs = Inr is \<longleftrightarrow>
     (\<forall>g\<in>set gs. g \<noteq> [] \<longrightarrow> int_of_str py g \<noteq> None) \<and>
     is = map (\<lambda>p. the (int_of_str py p)) (filter (\<lambda>p. p \<noteq> []) gs)"
  using int_list_ok [of gs py] int_list_Inr [of py gs "is"] by auto

lemma parse_line_split:
  "parse_line py cfg uid line = Inr a \<longleftrightarrow>
     (\<exists>b g k m d bi gs.
        py_split_max (CHR '';'') 4 line = [b, g, k, m, d] \<and> int_of_str py b = Some bi \<and>
        int_list py (py_split (CHR '','') g) = Inr gs \<and>
        a = \<lparr>act_id = uid, act_bot_id = bi, act_groups = gs, act_command = k,
             act_return_mode = strip py m, act_desc = strip py d,
             act_timeout = get_timeout cfg\<rparr>)"
  by (auto simp: parse_line_def split: list.splits option.splits sum.splits)

lemma set_join: "d \<noteq> c \<Longrightarrow> d \<in> set (join c parts) \<longleftrightarrow> (\<exists>p\<in>set parts. d \<in> set p)"
  by (induction c parts rule: join.induct) auto

lemma parse_line_iff:
  "parse_line py cfg uid line = Inr a \<longleftrightarrow> describes py (get_timeout cfg) uid line a"
proof
  assume "parse_line py cfg uid line = Inr a"
  then obtain b g k m d bi gs where h:
    "py_split_max (CHR '';'') 4 line = [b, g, k, m, d]" "int_of_str py b = Some bi"
    "int_list py (py_split (CHR '','') g) = Inr gs"
    "a = \<lparr>act_id = uid, act_bot_id = bi, act_groups = gs, act_command = k,
             act_return_mode = strip py m, act_desc = strip py d,
             act_timeout = get_timeout cfg\<rparr>"
    unfolding parse_line_split by blast
  define parts where "parts = py_split (CHR '','') g"
  have p: "parts \<noteq> []" "\<forall>p\<in>set parts. CHR '','' \<notin> set p" "g = join (CHR '','') parts"
    using py_split_iff [of "CHR '',''" g parts] parts_def by simp_all
  have l: "line = b @ CHR '';'' # g @ CHR '';'' # k @ CHR '';'' # m @ CHR '';'' # d"
    "CHR '';'' \<notin> set b" "CHR '';'' \<notin> set g" "CHR '';'' \<notin> set k" "CHR '';'' \<notin> set m"
    using h(1) unfolding split_five by simp_all
  have semi: "\<forall>p\<in>set parts. CHR '';'' \<notin> set p"
    using l(3) p(3) set_join [of "CHR '';''" "CHR '',''" parts] by auto
  have gs: "(\<forall>p\<in>set parts. p \<noteq> [] \<longrightarrow> int_of_str py p \<noteq> None)"
    "gs = map (\<lambda>p. the (int_of_str py p)) (filter (\<lambda>p. p \<noteq> []) parts)"
    using h(3) unfolding int_list_iff parts_def by simp_all
  show "describes py (get_timeout cfg) uid line a"
    unfolding describes_def
    apply (rule exI [of _ b], rule exI [of _ parts], rule exI [of _ k], rule exI [of _ m],
        rule exI [of _ d], rule exI [of _ bi])
    using l p semi gs h(2,4) by simp
next
  assume "describes py (get_timeout cfg) uid line a"
  then obtain botQQ parts command mode desc b where h:
    "line = botQQ @ CHR '';'' # join (CHR '','') parts @ CHR '';'' # command @ CHR '';'' # mode
                 @ CHR '';'' # desc"
    "CHR '';'' \<notin> set botQQ" "CHR '';'' \<notin> set command" "CHR '';'' \<notin> set mode"
    "parts \<noteq> []" "\<forall>p\<in>set parts. CHR '';'' \<notin> set p \<and> CHR '','' \<notin> set p"
    "int_of_str py botQQ = Some b"
    "\<forall>p\<in>set parts. p \<noteq> [] \<longrightarrow> int_of_str py p \<noteq> None"
    "a = \<lparr>act_id = uid, act_bot_id = b,
             act_groups = map (\<lambda>p. the (int_of_str py p)) (filter (\<lambda>p. p \<noteq> []) parts),
             act_command = command, act_return_mode = strip py mode, act_desc = strip py desc,
             act_timeout = get_timeout cfg\<rparr>"
    unfolding describes_def by blast
  have semi: "CHR '';'' \<notin> set (join (CHR '','') parts)"
    using h(6) set_join [of "CHR '';''" "CHR '',''" parts] by auto
  have sp: "py_split_max (CHR '';'') 4 line = [botQQ, join (CHR '','') parts, command, mode, desc]"
    unfolding split_five using h(1,2,3,4) semi by simp
  have ps: "py_split (CHR '','') (join (CHR '','') parts) = parts"
    unfolding py_split_iff using h(5,6) by simp
  have il: "int_list py parts =
      Inr (map (\<lambda>p. the (int_of_str py p)) (filter (\<lambda>p. p \<noteq> []) parts))"
    unfolding int_list_iff using h(8) by simp
  show "parse_line py cfg uid line = Inr a"
    unfolding parse_line_split using sp ps il h(7,9) by simp
qed

lemma parsable_iff: "parsable py line \<longleftrightarrow> (\<exists>a. parse_line py cfg uid line = Inr a)"
proof
  assume "parsable py line"
  then obtain T u a where "describes py T u line a" unfolding parsable_def by blast
  then have "\<exists>a'. describes py (get_timeout cfg) uid line a'"
    unfolding describes_def by blast
  then show "\<exists>a. parse_line py cfg uid line = Inr a" unfolding parse_line_iff .
next
  assume "\<exists>a. parse_line py cfg uid line = Inr a"
  then show "parsable py line" unfolding parse_line_iff parsable_def by blast
qed

lemma parse_actions_append:
  "parse_actions py cfg uuid k (xs @ ys) =
     parse_actions py cfg uuid k xs @ parse_actions py cfg uuid (k + length xs) ys"
  by (induction xs arbitrary: k) (auto split: sum.splits)

lemma parse_actions_related:
  "list_all2 (\<lambda>line a. \<exists>uid. describes py (get_timeout cfg) uid line a)
     (filter (parsable py) lines) (parse_actions py cfg uuid k lines)"
proof (induction lines arbitrary: k)
  case Nil
  then show ?case by simp
next
  case (Cons line lines)
  show ?case
  proof (cases "parse_line py cfg (uuid k) line")
    case (Inl e)
    then have "\<not> parsable py line" using parsable_iff [of py line cfg "uuid k"] by simp
    then show ?thesis using Inl Cons.IH by simp
  next
    case (Inr a)
    then have "parsable py line" using parsable_iff [of py line cfg "uuid k"] by blast
    moreover have "describes py (get_timeout cfg) (uuid k) line a" using Inr parse_line_iff by blast
    ultimately show ?thesis using Inr Cons.IH by auto
  qed
qed

lemma parse_actions_timeout:
  "a \<in> set (parse_actions py cfg uuid k lines) \<Longrightarrow> act_timeout a = get_timeout cfg"
proof (induction lines arbitrary: k)
  case Nil
  then show ?case by simp
next
  case (Cons line lines)
  show ?case
  proof (cases "parse_line py cfg (uuid k) line")
    case (Inl e)
    then show ?thesis using Cons by simp
  next
    case (Inr b)
    then have "act_timeout b = get_timeout cfg" unfolding parse_line_split by auto
    then show ?thesis using Inr Cons by auto
  qed
qed

lemma count_absent: "c \<notin> set xs \<Longrightarrow> filter (\<lambda>x. x = c) xs = []"
  by (induction xs) auto

lemma count_separators:
  assumes "c \<notin> set b" "c \<notin> set g" "c \<notin> set k" "c \<notin> set m"
  shows "length (filter (\<lambda>x. x = c) (b @ c # g @ c # k @ c # m @ c # d)) =
           4 + length (filter (\<lambda>x. x = c) d)"
  using assms by (simp add: count_absent)

lemma five_fields_iff:
  "five_fields py line \<longleftrightarrow>
     parsable py line \<and> length (filter (\<lambda>x. x = CHR '';'') line) = 4"
proof
  assume "five_fields py line"
  then obtain botQQ parts command mode desc where h:
    "line = botQQ @ CHR '';'' # join (CHR '','') parts @ CHR '';'' # command @ CHR '';'' # mode
                 @ CHR '';'' # desc"
    "CHR '';'' \<notin> set botQQ" "CHR '';'' \<notin> set command" "CHR '';'' \<notin> set mode"
    "CHR '';'' \<notin> set desc"
    "parts \<noteq> []" "\<forall>p\<in>set parts. CHR '';'' \<notin> set p \<and> CHR '','' \<notin> set p"
    "int_of_str py botQQ \<noteq> None"
    "\<forall>p\<in>set parts. p \<noteq> [] \<longrightarrow> int_of_str py p \<noteq> None"
    unfolding five_fields_def by blast
  obtain b where b: "int_of_str py botQQ = Some b" using h(8) by blast
  have semi: "CHR '';'' \<notin> set (join (CHR '','') parts)"
    using h(7) set_join [of "CHR '';''" "CHR '',''" parts] by auto
  have "describes py 0 [] line
      \<lparr>act_id = [], act_bot_id = b,
       act_groups = map (\<lambda>p. the (int_of_str py p)) (filter (\<lambda>p. p \<noteq> []) parts),
       act_command = command, act_return_mode = strip py mode, act_desc = strip py desc,
       act_timeout = 0\<rparr>"
    unfolding describes_def using h b by blast
  then have w: "parsable py line" unfolding parsable_def by blast
  have "length (filter (\<lambda>x. x = CHR '';'') line) = 4 + length (filter (\<lambda>x. x = CHR '';'') desc)"
    unfolding h(1) using count_separators [OF h(2) semi h(3) h(4)] .
  then have "length (filter (\<lambda>x. x = CHR '';'') line) = 4" using h(5) by (simp add: count_absent)
  then show "parsable py line \<and> length (filter (\<lambda>x. x = CHR '';'') line) = 4"
    using w by simp
next
  assume a: "parsable py line \<and> length (filter (\<lambda>x. x = CHR '';'') line) = 4"
  then obtain T uid act where "describes py T uid line act" unfolding parsable_def by blast
  then obtain botQQ parts command mode desc b where h:
    "line = botQQ @ CHR '';'' # join (CHR '','') parts @ CHR '';'' # command @ CHR '';'' # mode
                 @ CHR '';'' # desc"
    "CHR '';'' \<notin> set botQQ" "CHR '';'' \<notin> set command" "CHR '';'' \<notin> set mode"
    "parts \<noteq> []" "\<forall>p\<in>set parts. CHR '';'' \<notin> set p \<and> CHR '','' \<notin> set p"
    "int_of_str py botQQ = Some b"
    "\<forall>p\<in>set parts. p \<noteq> [] \<longrightarrow> int_of_str py p \<noteq> None"
    unfolding describes_def by blast
  have semi: "CHR '';'' \<notin> set (join (CHR '','') parts)"
    using h(6) set_join [of "CHR '';''" "CHR '',''" parts] by auto
  have "length (filter (\<lambda>x. x = CHR '';'') line) = 4 + length (filter (\<lambda>x. x = CHR '';'') desc)"
    unfolding h(1) using count_separators [OF h(2) semi h(3) h(4)] .
  then have "filter (\<lambda>x. x = CHR '';'') desc = []" using a by simp
  then have "CHR '';'' \<notin> set desc" by (auto simp: filter_empty_conv)
  then show "five_fields py line" unfolding five_fields_def using h by blast
qed

text \<open>
  Claim C7, as the code has it. A line parses to an action exactly when it describes one:
  at least five fields separated by semicolons, of which the fifth is everything after the
  fourth semicolon, the first converting to an integer and every non-empty part of the
  comma-separated second one too; any other line raises inside the \<open>try\<close> and is skipped.
  The parser returns, in input order, one record for each line it accepts and nothing
  else, and a line it does not accept does not stop the lines after it from being parsed.
  The lines of exactly five fields that the claim calls well-formed are the accepted lines
  with exactly four semicolons: each of them gets its record.
\<close>

theorem parse_best_effort:
  "(\<forall>uid line a. parse_line py cfg uid line = Inr a \<longleftrightarrow> describes py (get_timeout cfg) uid line a)
   \<and> (\<forall>uid line. (\<exists>e. parse_line py cfg uid line = Inl e) \<longleftrightarrow> \<not> parsable py line)
   \<and> list_all2 (\<lambda>line a. \<exists>uid. describes py (get_timeout cfg) uid line a)
        (filter (parsable py) lines) (parse_actions py cfg uuid k lines)
   \<and> length (parse_actions py cfg uuid k lines) = length (filter (parsable py) lines)
   \<and> (\<forall>xs bad ys. lines = xs @ bad # ys \<and> \<not> parsable py bad \<longrightarrow>
         parse_actions py cfg uuid k lines =
           parse_actions py cfg uuid k xs @ parse_actions py cfg uuid (Suc (k + length xs)) ys)
   \<and> (\<forall>xs ys. lines = xs @ ys \<longrightarrow>
         parse_actions py cfg uuid k lines =
           parse_actions py cfg uuid k xs @ parse_actions py cfg uuid (k + length xs) ys)
   \<and> (\<forall>line. five_fields py line \<longleftrightarrow>
         parsable py line \<and> length (filter (\<lambda>x. x = CHR '';'') line) = 4)"
proof (intro conjI allI impI)
  fix line
  show "five_fields py line \<longleftrightarrow>
         parsable py line \<and> length (filter (\<lambda>x. x = CHR '';'') line) = 4"
    by (rule five_fields_iff)
next
  fix uid line a
  show "parse_line py cfg uid line = Inr a \<longleftrightarrow> describes py (get_timeout cfg) uid line a"
    by (rule parse_line_iff)
next
  fix uid line
  show "(\<exists>e. parse_line py cfg uid line = Inl e) \<longleftrightarrow> \<not> parsable py line"
    unfolding parsable_iff [of py line cfg uid]
    by (cases "parse_line py cfg uid line") auto
next
  show rel: "list_all2 (\<lambda>line a. \<exists>uid. describes py (get_timeout cfg) uid line a)
        (filter (parsable py) lines) (parse_actions py cfg uuid k lines)"
    by (rule parse_actions_related)
  show "length (parse_actions py cfg uuid k lines) = length (filter (parsable py) lines)"
    using list_all2_lengthD [OF rel] by simp
next
  fix xs bad ys
  assume h: "lines = xs @ bad # ys \<and> \<not> parsable py bad"
  then have "\<exists>e. parse_line py cfg (uuid (k + length xs)) bad = Inl e"
    using parsable_iff [of py bad cfg "uuid (k + length xs)"]
    by (cases "parse_line py cfg (uuid (k + length xs)) bad") auto
  then have "parse_actions py cfg uuid (k + length xs) (bad # ys) =
      parse_actions py cfg uuid (Suc (k + length xs)) ys"
    by auto
  then show "parse_actions py cfg uuid k lines =
           parse_actions py cfg uuid k xs @ parse_actions py cfg uuid (Suc (k + length xs)) ys"
    using h parse_actions_append [of py cfg uuid k xs "bad # ys"] by simp
next
  fix xs ys
  assume "lines = xs @ ys"
  then show "parse_actions py cfg uuid k lines =
           parse_actions py cfg uuid k xs @ parse_actions py cfg uuid (k + length xs) ys"
    using parse_actions_append by simp
qed

lemma six_fields_parsed:
  "parse_line ascii_python config1 [] six_fields =
     Inr \<lparr>act_id = [], act_bot_id = 1, act_groups = [2], act_command = ''cmd'',
          act_return_mode = ''@'', act_desc = ''a;b'', act_timeout = 5\<rparr>"
  by (simp add: six_fields_def parse_line_def py_split_def ascii_python_def ascii_int_def
      ascii_strip_def digit_val_def config1_def get_timeout_def eval_nat_numeral)

lemma parse_line_examples:
  "parse_line ascii_python config1 [] ''1001;2001,2002;ping;;network test'' = Inr (parsed1 ! 0)"
  "parse_line ascii_python config1 ''u'' ''oops'' = Inl ValueError"
  "parse_line ascii_python config1 ''uu'' ''abc;1;cmd;@;x'' = Inl ValueError"
  "parse_line ascii_python config1 ''uuu'' ''1002;;weather;@; weather test '' = Inr (parsed1 ! 1)"
  by (simp_all add: parse_line_def py_split_def ascii_python_def ascii_int_def ascii_strip_def
      digit_val_def config1_def get_timeout_def parsed1_def eval_nat_numeral)

theorem parse_best_effort_witness:
  "parse_actions ascii_python config1 uuid1 0 (known_bots_action config1) = parsed1
   \<and> parsable ascii_python ''1001;2001,2002;ping;;network test''
   \<and> \<not> parsable ascii_python ''oops''
   \<and> \<not> parsable ascii_python ''abc;1;cmd;@;x''
   \<and> parsable ascii_python ''1002;;weather;@; weather test ''
   \<and> length (filter (parsable ascii_python) (known_bots_action config1)) = 2
   \<and> five_fields ascii_python ''1001;2001,2002;ping;;network test''
   \<and> parsable ascii_python six_fields \<and> \<not> five_fields ascii_python six_fields"
proof -
  note t = parse_best_effort [of ascii_python config1 "known_bots_action config1" uuid1 0]
  note five = t [THEN conjunct2, THEN conjunct2, THEN conjunct2, THEN conjunct2, THEN conjunct2,
      THEN conjunct2, rule_format]
  have w: "parsable ascii_python ''1001;2001,2002;ping;;network test''"
    "\<not> parsable ascii_python ''oops''"
    "\<not> parsable ascii_python ''abc;1;cmd;@;x''"
    "parsable ascii_python ''1002;;weather;@; weather test ''"
    using t [THEN conjunct2, THEN conjunct1, rule_format, of "[]" "''1001;2001,2002;ping;;network test''"]
      t [THEN conjunct2, THEN conjunct1, rule_format, of "''u''" "''oops''"]
      t [THEN conjunct2, THEN conjunct1, rule_format, of "''uu''" "''abc;1;cmd;@;x''"]
      t [THEN conjunct2, THEN conjunct1, rule_format, of "''uuu''" "''1002;;weather;@; weather test ''"]
      parse_line_examples
    by simp_all
  have p: "parse_actions ascii_python config1 uuid1 0 (known_bots_action config1) = parsed1"
    using parse_line_examples by (simp add: config1_def uuid1_def parsed1_def eval_nat_numeral)
  have n: "length (filter (parsable ascii_python) (known_bots_action config1)) = 2"
    using t [THEN conjunct2, THEN conjunct2, THEN conjunct2, THEN conjunct1] p
    by (simp add: parsed1_def)
  have f1: "five_fields ascii_python ''1001;2001,2002;ping;;network test''"
    using five [of "''1001;2001,2002;ping;;network test''"] w(1) by simp
  have s1: "parsable ascii_python six_fields"
    using t [THEN conjunct2, THEN conjunct1, rule_format, of "[]" six_fields] six_fields_parsed
    by simp
  have s2: "\<not> five_fields ascii_python six_fields"
    using five [of six_fields] by (simp add: six_fields_def)
  show ?thesis using w p n f1 s1 s2 by simp
qed

text \<open>
  Claim C7 as stated fails on a line of six fields: it is not five semicolon-separated
  fields, so by the claim's words it has the wrong field count and is skipped; the code
  splits at the first four semicolons only and returns a record whose description is
  \<open>a;b\<close>.
\<close>

theorem parse_counterexample:
  "\<not> five_fields ascii_python six_fields
   \<and> length (filter (\<lambda>x. x = CHR '';'') six_fields) = 5
   \<and> parse_actions ascii_python config1 uuid1 0 [six_fields] =
       [\<lparr>act_id = [], act_bot_id = 1, act_groups = [2], act_command = ''cmd'',
         act_return_mode = ''@'', act_desc = ''a;b'', act_timeout = 5\<rparr>]"
proof -
  have c: "length (filter (\<lambda>x. x = CHR '';'') six_fields) = 5" by (simp add: six_fields_def)
  then have "\<not> five_fields ascii_python six_fields" unfolding five_fields_iff by simp
  moreover have "parse_actions ascii_python config1 uuid1 0 [six_fields] =
       [\<lparr>act_id = [], act_bot_id = 1, act_groups = [2], act_command = ''cmd'',
         act_return_mode = ''@'', act_desc = ''a;b'', act_timeout = 5\<rparr>]"
    using six_fields_parsed by (simp add: uuid1_def)
  ultimately show ?thesis using c by simp
qed

text \<open>
  Claim C10. Whatever the line, the record parsed from it has the timeout of the
  configuration: the value of the key \<open>timeout\<close>, or 30 when the key is not set. So have all
  the actions of a list of lines, and all the actions of the plugin after construction.
\<close>

theorem timeout_is_global:
  "(\<forall>uid line a. parse_line py cfg uid line = Inr a \<longrightarrow> act_timeout a = get_timeout cfg)
   \<and> (\<forall>a\<in>set (parse_actions py cfg uuid k lines). act_timeout a = get_timeout cfg)
   \<and> (\<forall>a\<in>set (actions (init py cfg uuid)). act_timeout a = get_timeout cfg)
   \<and> (conf_timeout cfg = None \<longrightarrow> get_timeout cfg = 30)
   \<and> (\<forall>t. conf_timeout cfg = Some t \<longrightarrow> get_timeout cfg = t)"
proof (intro conjI allI impI ballI)
  fix uid line a
  assume "parse_line py cfg uid line = Inr a"
  then show "act_timeout a = get_timeout cfg" unfolding parse_line_split by auto
next
  fix a
  assume "a \<in> set (parse_actions py cfg uuid k lines)"
  then show "act_timeout a = get_timeout cfg" by (rule parse_actions_timeout)
next
  fix a
  assume "a \<in> set (actions (init py cfg uuid))"
  then show "act_timeout a = get_timeout cfg" using parse_actions_timeout by (simp add: init_def)
next
  assume "conf_timeout cfg = None"
  then show "get_timeout cfg = 30" by (simp add: get_timeout_def)
next
  fix t
  assume "conf_timeout cfg = Some t"
  then show "get_timeout cfg = t" by (simp add: get_timeout_def)
qed

theorem timeout_is_global_witness:
  "actions (init ascii_python config1 uuid1) = parsed1
   \<and> act_timeout (parsed1 ! 0) = 5 \<and> act_timeout (parsed1 ! 1) = 5
   \<and> get_timeout config1 = 5
   \<and> get_timeout (config1\<lparr>conf_timeout := None\<rparr>) = 30"
proof -
  note t = timeout_is_global [of ascii_python config1 uuid1 0 "known_bots_action config1"]
  have a: "actions (init ascii_python config1 uuid1) = parsed1"
    using parse_line_examples
    by (simp add: init_def config1_def uuid1_def parsed1_def eval_nat_numeral)
  have g: "get_timeout config1 = 5"
    using t [THEN conjunct2, THEN conjunct2, THEN conjunct2, THEN conjunct2, rule_format, of 5]
    by (simp add: config1_def)
  have m: "parsed1 ! 0 \<in> set (actions (init ascii_python config1 uuid1))"
    "parsed1 ! 1 \<in> set (actions (init ascii_python config1 uuid1))"
    unfolding a by (simp_all add: parsed1_def)
  have b: "act_timeout (parsed1 ! 0) = 5" "act_timeout (parsed1 ! 1) = 5"
    using t [THEN conjunct2, THEN conjunct2, THEN conjunct1, rule_format, OF m(1)]
      t [THEN conjunct2, THEN conjunct2, THEN conjunct1, rule_format, OF m(2)] g
    by simp_all
  have d: "get_timeout (config1\<lparr>conf_timeout := None\<rparr>) = 30"
    using timeout_is_global [of ascii_python "config1\<lparr>conf_timeout := None\<rparr>" uuid1 0 "[]",
        THEN conjunct2, THEN conjunct2, THEN conjunct2, THEN conjunct1]
    by simp
  show ?thesis using a b g d by simp
qed

subsection \<open>What one step does to one request\<close>

lemma first_match_present:
  "first_match ev t ps = Some (r, i) \<Longrightarrow> map_of ps r \<noteq> None"
  using first_match_mem [of ev t ps r i] by (auto simp: map_of_eq_None_iff rev_image_eqI)

lemma dispatch_other:
  assumes "r \<noteq> rid"
  shows "map_of (pending_requests (snd (use_bot_action ev d r pick now s))) rid =
           map_of (pending_requests s) rid"
    and "deliveries rid (snd (use_bot_action ev d r pick now s)) = deliveries rid s"
    and "tasks (snd (use_bot_action ev d r pick now s)) rid = tasks s rid"
proof -
  show "map_of (pending_requests (snd (use_bot_action ev d r pick now s))) rid =
           map_of (pending_requests s) rid"
  proof (cases rule: use_bot_action_cases [of now s ev d r pick])
    case (dispatched a)
    then show ?thesis using assms use_bot_action_dispatched [of now s d a ev r pick]
      by (simp add: update_conv')
  qed (simp_all add: rate_limited_fields)
  show "deliveries rid (snd (use_bot_action ev d r pick now s)) = deliveries rid s"
  proof (cases rule: use_bot_action_cases [of now s ev d r pick])
    case (dispatched a)
    then show ?thesis using assms use_bot_action_dispatched [of now s d a ev r pick]
      by (simp add: deliveries_def)
  qed (simp_all add: rate_limited_fields deliveries_def)
  show "tasks (snd (use_bot_action ev d r pick now s)) rid = tasks s rid"
  proof (cases rule: use_bot_action_cases [of now s ev d r pick])
    case (dispatched a)
    then show ?thesis using assms use_bot_action_dispatched [of now s d a ev r pick]
      by simp
  qed (simp_all add: rate_limited_fields)
qed

lemma resume_frame:
  "pending_requests (use_bot_action_resume r s) = pending_requests s"
  "sent (use_bot_action_resume r s) = sent s"
  "deliveries rid (use_bot_action_resume r s) = deliveries rid s"
  "r \<noteq> rid \<Longrightarrow> tasks (use_bot_action_resume r s) rid = tasks s rid"
  by (simp_all add: use_bot_action_resume_def deliveries_def split: option.splits task_state.splits)

lemma resume_own:
  "tasks (use_bot_action_resume rid s) rid =
     (if tasks s rid = Some AwaitingSend then Some Created else tasks s rid)"
  by (simp add: use_bot_action_resume_def split: option.splits task_state.splits)

lemma start_frame:
  "pending_requests (wait_timeout_start r now s) = pending_requests s"
  "sent (wait_timeout_start r now s) = sent s"
  "deliveries rid (wait_timeout_start r now s) = deliveries rid s"
  "r \<noteq> rid \<Longrightarrow> tasks (wait_timeout_start r now s) rid = tasks s rid"
  by (simp_all add: wait_timeout_start_def deliveries_def split: option.splits task_state.splits)

lemma start_own:
  "tasks (wait_timeout_start rid now s) rid =
     (if tasks s rid = Some Created
      then (case map_of (pending_requests s) rid of
              None \<Rightarrow> Some Returned
            | Some info \<Rightarrow> Some (Sleeping info (now + sleep_delay info now)))
      else tasks s rid)"
  by (simp add: wait_timeout_start_def split: option.splits task_state.splits)

lemma wake_other:
  assumes "r \<noteq> rid"
  shows "map_of (pending_requests (wait_timeout_wake r now s)) rid = map_of (pending_requests s) rid"
    and "deliveries rid (wait_timeout_wake r now s) = deliveries rid s"
    and "tasks (wait_timeout_wake r now s) rid = tasks s rid"
  using assms
  by (simp_all add: wait_timeout_wake_def deliveries_def dict_pop_def delete_conv'
      split: option.splits task_state.splits)

lemma wake_own:
  "wait_timeout_wake rid now s =
     (case tasks s rid of
        Some (Sleeping info w) \<Rightarrow>
          if now < w then s
          else if map_of (pending_requests s) rid \<noteq> None
          then s\<lparr>pending_requests := AList.delete rid (pending_requests s),
                 sent := sent s @
                   [\<lparr>to_group = source_group info, body = timeout_message s,
                     request = rid, kind = Timeout, sent_at = now\<rparr>],
                 tasks := (tasks s)(rid \<mapsto> Returned)\<rparr>
          else s\<lparr>tasks := (tasks s)(rid \<mapsto> Returned)\<rparr>
      | _ \<Rightarrow> s)"
  by (simp add: wait_timeout_wake_def dict_pop_def split: option.splits task_state.splits)

lemma message_none:
  "first_match ev now (pending_requests s) = None \<Longrightarrow> snd (on_all_message ev now s) = s"
  by (simp add: on_all_message_def)

lemma message_some:
  "first_match ev now (pending_requests s) = Some (q, i) \<Longrightarrow>
   snd (on_all_message ev now s) =
     s\<lparr>pending_requests := AList.delete q (pending_requests s),
       sent := sent s @
         [\<lparr>to_group = source_group i,
           body = result_prefix @ (case message_str ev of None \<Rightarrow> [] | Some m \<Rightarrow> m),
           request = q, kind = Result, sent_at = now\<rparr>]\<rparr>"
  by (simp add: on_all_message_def dict_pop_def)

subsection \<open>A key that is absent stays absent\<close>

lemma absent_step:
  assumes "map_of (pending_requests s) rid = None" and "rid \<notin> set (dispatch_ids [e])"
  shows "map_of (pending_requests (step e s)) rid = None \<and>
         deliveries rid (step e s) = deliveries rid s"
proof (cases e)
  case (Dispatch ev d r pick now)
  then have "r \<noteq> rid" using assms(2) by auto
  then show ?thesis using Dispatch assms(1) dispatch_other [of r rid ev d pick now s] by simp
next
  case (Resume r)
  then show ?thesis using assms(1) by (simp add: resume_frame)
next
  case (WatchdogStart r now)
  then show ?thesis using assms(1) by (simp add: start_frame)
next
  case (WatchdogWake r now)
  show ?thesis
  proof (cases "r = rid")
    case True
    then show ?thesis using WatchdogWake assms(1)
      by (simp add: wake_own deliveries_def split: option.splits task_state.splits)
  next
    case False
    then show ?thesis using WatchdogWake assms(1) wake_other [of r rid now s] by simp
  qed
next
  case (Message ev now)
  show ?thesis
  proof (cases "first_match ev now (pending_requests s)")
    case None
    then show ?thesis using Message assms(1) by (simp add: message_none)
  next
    case (Some p)
    obtain q i where p: "p = (q, i)" by (cases p)
    have "q \<noteq> rid" using Some p assms(1) first_match_present by fastforce
    then show ?thesis using Message Some p assms(1)
      by (simp add: message_some delete_conv' deliveries_def)
  qed
next
  case Terminate
  then show ?thesis by (simp add: terminate_def deliveries_def)
qed

lemma dispatch_ids_append: "dispatch_ids (xs @ ys) = dispatch_ids xs @ dispatch_ids ys"
  by (induction xs rule: dispatch_ids.induct) simp_all

lemma dispatch_ids_Cons:
  "rid \<notin> set (dispatch_ids (e # es)) \<longleftrightarrow>
     rid \<notin> set (dispatch_ids [e]) \<and> rid \<notin> set (dispatch_ids es)"
  using dispatch_ids_append [of "[e]" es] by simp

lemma absent_run:
  "map_of (pending_requests s) rid = None \<Longrightarrow> rid \<notin> set (dispatch_ids es) \<Longrightarrow>
   map_of (pending_requests (run es s)) rid = None \<and>
   deliveries rid (run es s) = deliveries rid s"
proof (induction es arbitrary: s)
  case Nil
  then show ?case by simp
next
  case (Cons e es)
  have e: "rid \<notin> set (dispatch_ids [e])" and es: "rid \<notin> set (dispatch_ids es)"
    using Cons.prems(2) dispatch_ids_Cons by blast+
  note st = absent_step [OF Cons.prems(1) e]
  show ?case using Cons.IH [of "step e s"] st es by simp
qed

subsection \<open>Exactly one delivery\<close>

lemma once_step:
  assumes "once rid s" and "rid \<notin> set (dispatch_ids [e])" and "e \<noteq> Terminate"
  shows "once rid (step e s)"
proof (cases e)
  case (Dispatch ev d r pick now)
  then have "r \<noteq> rid" using assms(2) by auto
  then show ?thesis using Dispatch assms(1) dispatch_other [of r rid ev d pick now s]
    by (simp add: once_def)
next
  case (Resume r)
  show ?thesis
  proof (cases "r = rid")
    case True
    then show ?thesis using Resume assms(1) by (auto simp: once_def resume_frame resume_own)
  next
    case False
    then show ?thesis using Resume assms(1) by (simp add: once_def resume_frame)
  qed
next
  case (WatchdogStart r now)
  show ?thesis
  proof (cases "r = rid")
    case True
    then show ?thesis using WatchdogStart assms(1)
      by (auto simp: once_def start_frame start_own split: option.splits)
  next
    case False
    then show ?thesis using WatchdogStart assms(1) by (simp add: once_def start_frame)
  qed
next
  case (WatchdogWake r now)
  show ?thesis
  proof (cases "r = rid")
    case True
    then show ?thesis using WatchdogWake assms(1)
      by (auto simp: once_def wake_own deliveries_def delete_conv'
          split: option.splits task_state.splits if_splits)
  next
    case False
    then show ?thesis using WatchdogWake assms(1) wake_other [of r rid now s]
      by (simp add: once_def)
  qed
next
  case (Message ev now)
  show ?thesis
  proof (cases "first_match ev now (pending_requests s)")
    case None
    then show ?thesis using Message assms(1) by (simp add: message_none)
  next
    case (Some p)
    obtain q i where p: "p = (q, i)" by (cases p)
    have pres: "map_of (pending_requests s) q \<noteq> None"
      using Some p first_match_present by fastforce
    show ?thesis
    proof (cases "q = rid")
      case True
      then show ?thesis using Message Some p assms(1) pres
        by (auto simp: once_def message_some delete_conv' deliveries_def split: if_splits)
    next
      case False
      then show ?thesis using Message Some p assms(1)
        by (auto simp: once_def message_some delete_conv' deliveries_def split: if_splits)
    qed
  qed
next
  case Terminate
  then show ?thesis using assms(3) by simp
qed

lemma once_run:
  "once rid s \<Longrightarrow> rid \<notin> set (dispatch_ids es) \<Longrightarrow> Terminate \<notin> set es \<Longrightarrow>
   once rid (run es s)"
proof (induction es arbitrary: s)
  case Nil
  then show ?case by simp
next
  case (Cons e es)
  have e: "rid \<notin> set (dispatch_ids [e])" and es: "rid \<notin> set (dispatch_ids es)"
    using Cons.prems(2) dispatch_ids_Cons by blast+
  have "e \<noteq> Terminate" using Cons.prems(3) by auto
  then have "once rid (step e s)" using once_step [OF Cons.prems(1) e] by simp
  then show ?case using Cons.IH [of "step e s"] es Cons.prems(3) by simp
qed

subsection \<open>Where and when deliveries are made\<close>

lemma sleep_delay_bound: "expire_at info \<le> now + sleep_delay info now"
  by (simp add: sleep_delay_def max_def)

lemma update_other_mem:
  "(k, v) \<in> set (AList.update k' v' ps) \<Longrightarrow> k \<noteq> k' \<Longrightarrow> (k, v) \<in> set ps"
  by (induction ps) (auto split: if_splits)

lemma delete_mem: "(k, v) \<in> set (AList.delete k' ps) \<Longrightarrow> (k, v) \<in> set ps"
  by (simp add: AList.delete_eq)

lemma dispatch_other_mem:
  assumes "r \<noteq> rid" and "(rid, i) \<in> set (pending_requests (snd (use_bot_action ev d r pick now s)))"
  shows "(rid, i) \<in> set (pending_requests s)"
proof (cases rule: use_bot_action_cases [of now s ev d r pick])
  case (dispatched a)
  then show ?thesis using assms use_bot_action_dispatched [of now s d a ev r pick]
    by (auto dest: update_other_mem)
qed (use assms in \<open>simp_all add: rate_limited_fields\<close>)

lemma wake_other_mem:
  "(rid, i) \<in> set (pending_requests (wait_timeout_wake r now s)) \<Longrightarrow>
   (rid, i) \<in> set (pending_requests s)"
  by (auto simp: wait_timeout_wake_def dict_pop_def dest: delete_mem
      split: option.splits task_state.splits if_splits)

lemma deliveries_snoc:
  "sent s' = sent s @ [m] \<Longrightarrow>
   deliveries rid s' =
     (if request m = rid \<and> kind m \<noteq> Command then deliveries rid s @ [m] else deliveries rid s)"
  by (simp add: deliveries_def)

lemma wake_own_cases:
  obtains (idle) "wait_timeout_wake rid now s = s"
  | (fire) info w y where "tasks s rid = Some (Sleeping info w)" "w \<le> now"
      "map_of (pending_requests s) rid = Some y"
      "wait_timeout_wake rid now s =
         s\<lparr>pending_requests := AList.delete rid (pending_requests s),
           sent := sent s @
             [\<lparr>to_group = source_group info, body = timeout_message s,
               request = rid, kind = Timeout, sent_at = now\<rparr>],
           tasks := (tasks s)(rid \<mapsto> Returned)\<rparr>"
  | (late) info w where "tasks s rid = Some (Sleeping info w)" "w \<le> now"
      "map_of (pending_requests s) rid = None"
      "wait_timeout_wake rid now s = s\<lparr>tasks := (tasks s)(rid \<mapsto> Returned)\<rparr>"
proof (cases "tasks s rid")
  case None
  then show ?thesis using idle by (simp add: wake_own)
next
  case (Some ts)
  show ?thesis
  proof (cases ts)
    case (Sleeping info w)
    show ?thesis
    proof (cases "now < w")
      case True
      then show ?thesis using idle Some Sleeping by (simp add: wake_own)
    next
      case nl: False
      show ?thesis
      proof (cases "map_of (pending_requests s) rid")
        case None
        then show ?thesis using late [of info w] Some Sleeping nl by (simp add: wake_own)
      next
        case y: (Some y)
        then show ?thesis using fire [of info w y] Some Sleeping nl by (simp add: wake_own)
      qed
    qed
  qed (use Some idle in \<open>simp_all add: wake_own\<close>)
qed

lemma timed_step:
  assumes "timed rid G E s" and "rid \<notin> set (dispatch_ids [e])"
  shows "timed rid G E (step e s)"
proof (cases e)
  case (Dispatch ev d r pick now)
  then have "r \<noteq> rid" using assms(2) by auto
  then show ?thesis
    using Dispatch assms(1) dispatch_other(2,3) [of r rid ev d pick now s]
      dispatch_other_mem [of r rid _ ev d pick now s]
    by (simp add: timed_def)
next
  case (Resume r)
  show ?thesis
  proof (cases "r = rid")
    case True
    then show ?thesis using Resume assms(1) by (auto simp: timed_def resume_frame resume_own)
  next
    case False
    then show ?thesis using Resume assms(1) by (simp add: timed_def resume_frame)
  qed
next
  case (WatchdogStart r now)
  show ?thesis
  proof (cases "r = rid")
    case True
    then show ?thesis using WatchdogStart assms(1) sleep_delay_bound
      by (auto simp: timed_def start_frame start_own split: option.splits if_splits
          dest!: map_of_SomeD)
  next
    case False
    then show ?thesis using WatchdogStart assms(1) by (simp add: timed_def start_frame)
  qed
next
  case (WatchdogWake r now)
  show ?thesis
  proof (cases "r = rid")
    case True
    show ?thesis
    proof (cases rule: wake_own_cases [of rid now s])
      case idle
      then show ?thesis using WatchdogWake True assms(1) by simp
    next
      case (fire info w y)
      let ?m = "\<lparr>to_group = source_group info, body = timeout_message s,
               request = rid, kind = Timeout, sent_at = now\<rparr>"
      have d: "deliveries rid (step e s) = deliveries rid s @ [?m]"
        using WatchdogWake True fire(4) deliveries_snoc [of "step e s" s ?m rid] by simp
      have g: "source_group info = G" "E \<le> w" using assms(1) fire(1) by (auto simp: timed_def)
      have p: "\<And>i. (rid, i) \<in> set (pending_requests (step e s)) \<Longrightarrow> (rid, i) \<in> set (pending_requests s)"
        using WatchdogWake True fire(4) by (auto dest: delete_mem)
      have t: "tasks (step e s) rid = Some Returned" using WatchdogWake True fire(4) by simp
      show ?thesis unfolding timed_def d t using assms(1) g fire(2) p by (auto simp: timed_def)
    next
      case (late info w)
      then show ?thesis using WatchdogWake True assms(1) by (simp add: timed_def deliveries_def)
    qed
  next
    case False
    then show ?thesis
      using WatchdogWake assms(1) wake_other(2,3) [of r rid now s] wake_other_mem [of rid _ r now s]
      by (simp add: timed_def)
  qed
next
  case (Message ev now)
  show ?thesis
  proof (cases "first_match ev now (pending_requests s)")
    case None
    then show ?thesis using Message assms(1) by (simp add: message_none)
  next
    case (Some p)
    obtain q i where p: "p = (q, i)" by (cases p)
    have mem: "(q, i) \<in> set (pending_requests s)" using Some p first_match_mem by fastforce
    let ?m = "\<lparr>to_group = source_group i,
           body = result_prefix @ (case message_str ev of None \<Rightarrow> [] | Some m \<Rightarrow> m),
           request = q, kind = Result, sent_at = now\<rparr>"
    have st: "step e s = s\<lparr>pending_requests := AList.delete q (pending_requests s),
        sent := sent s @ [?m]\<rparr>"
      using Message Some p by (simp add: message_some)
    have d: "deliveries rid (step e s) =
        (if q = rid then deliveries rid s @ [?m] else deliveries rid s)"
      using deliveries_snoc [of "step e s" s ?m rid] st by simp
    have pm: "\<And>j. (rid, j) \<in> set (pending_requests (step e s)) \<Longrightarrow> (rid, j) \<in> set (pending_requests s)"
      using st by (auto dest: delete_mem)
    have t: "tasks (step e s) = tasks s" using st by simp
    have g: "q = rid \<Longrightarrow> source_group i = G" using mem assms(1) by (auto simp: timed_def)
    show ?thesis unfolding timed_def d t using assms(1) pm g by (auto simp: timed_def)
  qed
next
  case Terminate
  then show ?thesis using assms(1) by (simp add: timed_def terminate_def deliveries_def)
qed

lemma timed_run:
  "timed rid G E s \<Longrightarrow> rid \<notin> set (dispatch_ids es) \<Longrightarrow> timed rid G E (run es s)"
proof (induction es arbitrary: s)
  case Nil
  then show ?case by simp
next
  case (Cons e es)
  have e: "rid \<notin> set (dispatch_ids [e])" and es: "rid \<notin> set (dispatch_ids es)"
    using Cons.prems(2) dispatch_ids_Cons by blast+
  have "timed rid G E (step e s)" using timed_step [OF Cons.prems(1) e] .
  then show ?case using Cons.IH [of "step e s"] es by simp
qed

subsection \<open>A dispatch establishes the invariants\<close>

lemma run_append: "run (es @ es') s = run es' (run es s)"
  by (induction es arbitrary: s) simp_all

lemma update_fresh_mem:
  "map_of ps k = None \<Longrightarrow> (k, i) \<in> set (AList.update k v ps) \<Longrightarrow> i = v"
  by (induction ps) (auto split: if_splits)

lemma dispatched_state:
  assumes "use_bot_action ev d rid pick t0 s0 = (Dispatched rid, s1)"
  obtains a where "find_action d (actions s0) = Some a" "act_groups a \<noteq> []"
    "s1 = (snd (rate_limited t0 s0))
        \<lparr>pending_requests :=
            AList.update rid
              \<lparr>bot_id = act_bot_id a, group_id = act_groups a ! (pick mod length (act_groups a)),
               source_group = get_group_id ev, return_mode = act_return_mode a,
               expire_at = t0 + real_of_int (act_timeout a)\<rparr>
              (pending_requests s0),
          sent := sent s0 @
            [\<lparr>to_group = PyInt (act_groups a ! (pick mod length (act_groups a))),
              body = act_command a, request = rid, kind = Command, sent_at = t0\<rparr>],
          tasks := (tasks s0)(rid \<mapsto> AwaitingSend)\<rparr>"
proof (cases rule: use_bot_action_cases [of t0 s0 ev d rid pick])
  case limited
  then show ?thesis using assms by simp
next
  case not_found
  then show ?thesis using assms by simp
next
  case (unreachable a)
  then show ?thesis using assms by simp
next
  case (dispatched a)
  then show ?thesis
    using that [of a] assms use_bot_action_dispatched [of t0 s0 d a ev rid pick] by simp
qed

lemma dispatch_present:
  assumes "use_bot_action ev d rid pick t0 s0 = (Dispatched rid, s1)"
  shows "map_of (pending_requests s1) rid \<noteq> None"
proof -
  obtain a :: action where "s1 = (snd (rate_limited t0 s0))
        \<lparr>pending_requests :=
            AList.update rid
              \<lparr>bot_id = act_bot_id a, group_id = act_groups a ! (pick mod length (act_groups a)),
               source_group = get_group_id ev, return_mode = act_return_mode a,
               expire_at = t0 + real_of_int (act_timeout a)\<rparr>
              (pending_requests s0),
          sent := sent s0 @
            [\<lparr>to_group = PyInt (act_groups a ! (pick mod length (act_groups a))),
              body = act_command a, request = rid, kind = Command, sent_at = t0\<rparr>],
          tasks := (tasks s0)(rid \<mapsto> AwaitingSend)\<rparr>"
    using dispatched_state [OF assms] by blast
  then show ?thesis by (simp add: update_conv')
qed

lemma dispatch_once:
  assumes "use_bot_action ev d rid pick t0 s0 = (Dispatched rid, s1)"
    and "deliveries rid s0 = []"
  shows "once rid s1"
proof -
  obtain a :: action where a: "s1 = (snd (rate_limited t0 s0))
        \<lparr>pending_requests :=
            AList.update rid
              \<lparr>bot_id = act_bot_id a, group_id = act_groups a ! (pick mod length (act_groups a)),
               source_group = get_group_id ev, return_mode = act_return_mode a,
               expire_at = t0 + real_of_int (act_timeout a)\<rparr>
              (pending_requests s0),
          sent := sent s0 @
            [\<lparr>to_group = PyInt (act_groups a ! (pick mod length (act_groups a))),
              body = act_command a, request = rid, kind = Command, sent_at = t0\<rparr>],
          tasks := (tasks s0)(rid \<mapsto> AwaitingSend)\<rparr>"
    using dispatched_state [OF assms(1)] by blast
  have "deliveries rid s1 = []" using assms(2) unfolding a by (simp add: deliveries_def)
  moreover have "map_of (pending_requests s1) rid \<noteq> None" unfolding a by (simp add: update_conv')
  moreover have "tasks s1 rid = Some AwaitingSend" unfolding a by simp
  ultimately show ?thesis by (simp add: once_def)
qed

lemma dispatch_timed:
  assumes "use_bot_action ev d rid pick t0 s0 = (Dispatched rid, s1)"
    and "map_of (pending_requests s0) rid = None" and "deliveries rid s0 = []"
  shows "\<exists>a. find_action d (actions s0) = Some a \<and>
     timed rid (get_group_id ev) (t0 + real_of_int (act_timeout a)) s1"
proof -
  obtain a where f: "find_action d (actions s0) = Some a" and a: "s1 = (snd (rate_limited t0 s0))
        \<lparr>pending_requests :=
            AList.update rid
              \<lparr>bot_id = act_bot_id a, group_id = act_groups a ! (pick mod length (act_groups a)),
               source_group = get_group_id ev, return_mode = act_return_mode a,
               expire_at = t0 + real_of_int (act_timeout a)\<rparr>
              (pending_requests s0),
          sent := sent s0 @
            [\<lparr>to_group = PyInt (act_groups a ! (pick mod length (act_groups a))),
              body = act_command a, request = rid, kind = Command, sent_at = t0\<rparr>],
          tasks := (tasks s0)(rid \<mapsto> AwaitingSend)\<rparr>"
    using dispatched_state [OF assms(1)] by blast
  have d: "deliveries rid s1 = []" using assms(3) unfolding a by (simp add: deliveries_def)
  have t: "tasks s1 rid = Some AwaitingSend" unfolding a by simp
  have p: "\<And>i. (rid, i) \<in> set (pending_requests s1) \<Longrightarrow>
      source_group i = get_group_id ev \<and> expire_at i = t0 + real_of_int (act_timeout a)"
  proof -
    fix i
    assume "(rid, i) \<in> set (pending_requests s1)"
    then have "i = \<lparr>bot_id = act_bot_id a, group_id = act_groups a ! (pick mod length (act_groups a)),
               source_group = get_group_id ev, return_mode = act_return_mode a,
               expire_at = t0 + real_of_int (act_timeout a)\<rparr>"
      unfolding a using update_fresh_mem [OF assms(2)] by simp
    then show "source_group i = get_group_id ev \<and> expire_at i = t0 + real_of_int (act_timeout a)"
      by simp
  qed
  have "timed rid (get_group_id ev) (t0 + real_of_int (act_timeout a)) s1"
    unfolding timed_def d t using p by simp
  then show ?thesis using f by blast
qed

lemma watchdog_completes:
  assumes "tasks s rid \<noteq> None"
  shows "\<exists>t t'. tasks (run [Resume rid, WatchdogStart rid t, WatchdogWake rid t'] s) rid = Some Returned"
proof -
  obtain ts where ts: "tasks s rid = Some ts" using assms by blast
  show ?thesis
  proof (cases ts)
    case AwaitingSend
    show ?thesis
    proof (cases "map_of (pending_requests s) rid")
      case None
      then have "tasks (run [Resume rid, WatchdogStart rid 0, WatchdogWake rid 0] s) rid = Some Returned"
        using ts AwaitingSend by (simp add: resume_own resume_frame start_own wake_own)
      then show ?thesis by blast
    next
      case (Some info)
      then have "tasks (run [Resume rid, WatchdogStart rid 0, WatchdogWake rid (0 + sleep_delay info 0)] s) rid = Some Returned"
        using ts AwaitingSend
        by (simp add: resume_own resume_frame start_own start_frame wake_own)
      then show ?thesis by blast
    qed
  next
    case Created
    show ?thesis
    proof (cases "map_of (pending_requests s) rid")
      case None
      then have "tasks (run [Resume rid, WatchdogStart rid 0, WatchdogWake rid 0] s) rid = Some Returned"
        using ts Created by (simp add: use_bot_action_resume_def start_own wake_own)
      then show ?thesis by blast
    next
      case (Some info)
      then have "tasks (run [Resume rid, WatchdogStart rid 0, WatchdogWake rid (0 + sleep_delay info 0)] s) rid = Some Returned"
        using ts Created
        by (simp add: use_bot_action_resume_def start_own start_frame wake_own)
      then show ?thesis by blast
    qed
  next
    case (Sleeping info w)
    then have "tasks (run [Resume rid, WatchdogStart rid 0, WatchdogWake rid w] s) rid = Some Returned"
      using ts by (simp add: use_bot_action_resume_def wait_timeout_start_def wake_own)
    then show ?thesis by blast
  next
    case Returned
    then have "tasks (run [Resume rid, WatchdogStart rid 0, WatchdogWake rid 0] s) rid = Some Returned"
      using ts by (simp add: use_bot_action_resume_def wait_timeout_start_def wake_own)
    then show ?thesis by blast
  qed
qed

text \<open>
  Claim C1. A dispatch that succeeds with a fresh identifier puts the request in the
  table. Whatever events follow, in whatever order (messages, matching or not, at any
  clock reading; the dispatcher resuming; watchdogs starting and waking; other
  dispatches), as long as the plugin is not torn down and the identifier is not drawn
  again: at most one result or timeout message is sent for the request; exactly one has
  been sent precisely when the key is no longer in the table, so the step that removes the
  key is the step that delivers; once the watchdog has returned exactly one has been sent;
  each goes to the group the request came from; the watchdog can always run to its end;
  and with the key gone no later event delivers anything more for it.
\<close>

theorem exactly_one_delivery:
  assumes "use_bot_action ev d rid pick t0 s0 = (Dispatched rid, s1)"
    and "map_of (pending_requests s0) rid = None" and "deliveries rid s0 = []"
    and "rid \<notin> set (dispatch_ids es)" and "Terminate \<notin> set es"
  shows "length (deliveries rid (run es s1)) \<le> 1
    \<and> (length (deliveries rid (run es s1)) = 1 \<longleftrightarrow> map_of (pending_requests (run es s1)) rid = None)
    \<and> (tasks (run es s1) rid = Some Returned \<longrightarrow> length (deliveries rid (run es s1)) = 1)
    \<and> (\<forall>m\<in>set (deliveries rid (run es s1)). to_group m = get_group_id ev \<and> kind m \<in> {Result, Timeout})
    \<and> (\<exists>t t'. tasks (run (es @ [Resume rid, WatchdogStart rid t, WatchdogWake rid t']) s1) rid = Some Returned)
    \<and> (\<forall>es'. rid \<notin> set (dispatch_ids es') \<and> map_of (pending_requests (run es s1)) rid = None \<longrightarrow>
          deliveries rid (run (es @ es') s1) = deliveries rid (run es s1))"
proof -
  have o: "once rid (run es s1)"
    using once_run [OF dispatch_once [OF assms(1,3)] assms(4,5)] .
  obtain a :: action
    where t: "timed rid (get_group_id ev) (t0 + real_of_int (act_timeout a)) (run es s1)"
    using dispatch_timed [OF assms(1,2,3)] timed_run [OF _ assms(4)] by blast
  have 1: "length (deliveries rid (run es s1)) \<le> 1" using o by (auto simp: once_def split: if_splits)
  have 2: "length (deliveries rid (run es s1)) = 1 \<longleftrightarrow> map_of (pending_requests (run es s1)) rid = None"
    using o by (auto simp: once_def split: if_splits)
  have 3: "tasks (run es s1) rid = Some Returned \<longrightarrow> length (deliveries rid (run es s1)) = 1"
    using o by (auto simp: once_def split: if_splits)
  have 4: "\<forall>m\<in>set (deliveries rid (run es s1)). to_group m = get_group_id ev \<and> kind m \<in> {Result, Timeout}"
  proof
    fix m
    assume m: "m \<in> set (deliveries rid (run es s1))"
    then have "kind m \<noteq> Command" by (simp add: deliveries_def)
    then have "kind m \<in> {Result, Timeout}" by (cases "kind m") simp_all
    then show "to_group m = get_group_id ev \<and> kind m \<in> {Result, Timeout}"
      using t m by (simp add: timed_def)
  qed
  have "tasks (run es s1) rid \<noteq> None" using o by (simp add: once_def)
  then have 5: "\<exists>t t'. tasks (run (es @ [Resume rid, WatchdogStart rid t, WatchdogWake rid t']) s1) rid = Some Returned"
    unfolding run_append by (rule watchdog_completes)
  have 6: "\<forall>es'. rid \<notin> set (dispatch_ids es') \<and> map_of (pending_requests (run es s1)) rid = None \<longrightarrow>
          deliveries rid (run (es @ es') s1) = deliveries rid (run es s1)"
    unfolding run_append using absent_run by blast
  show ?thesis by (intro conjI 1 2 3 4 5 6)
qed

lemma timeout_message_step: "timeout_message (step e s) = timeout_message s"
proof (cases e)
  case (Dispatch ev d r pick now)
  show ?thesis
  proof (cases rule: use_bot_action_cases [of now s ev d r pick])
    case (dispatched a)
    then show ?thesis using Dispatch use_bot_action_dispatched [of now s d a ev r pick]
      by (simp add: rate_limited_fields)
  qed (use Dispatch in \<open>simp_all add: rate_limited_fields\<close>)
next
  case (Resume r)
  then show ?thesis
    by (simp add: use_bot_action_resume_def split: option.splits task_state.splits)
next
  case (WatchdogStart r now)
  then show ?thesis
    by (simp add: wait_timeout_start_def split: option.splits task_state.splits)
next
  case (WatchdogWake r now)
  then show ?thesis
    by (simp add: wait_timeout_wake_def split: option.splits task_state.splits)
next
  case (Message ev now)
  then show ?thesis by (simp add: on_all_message_def split: option.splits prod.splits)
next
  case Terminate
  then show ?thesis by (simp add: terminate_def)
qed

lemma timeout_message_run: "timeout_message (run es s) = timeout_message s"
  by (induction es arbitrary: s) (simp_all add: timeout_message_step)

lemma dispatch_timeout_message:
  assumes "use_bot_action ev d rid pick t0 s0 = (out, s1)"
  shows "timeout_message s1 = timeout_message s0"
  using timeout_message_step [of "Dispatch ev d rid pick t0" s0] assms by simp

lemma asleep_after_start:
  assumes "once rid s" and "timed rid G E s" and "map_of (pending_requests s) rid \<noteq> None"
  shows "\<exists>i w. tasks (run [Resume rid, WatchdogStart rid t] s) rid = Some (Sleeping i w) \<and>
           source_group i = G \<and> E \<le> w \<and>
           (w = t + max 0 (E - t) \<or> tasks s rid = Some (Sleeping i w))"
proof -
  obtain info where info: "map_of (pending_requests s) rid = Some info" using assms(3) by blast
  then have mem: "(rid, info) \<in> set (pending_requests s)" by (rule map_of_SomeD)
  then have g: "source_group info = G" "expire_at info = E" using assms(2) by (auto simp: timed_def)
  obtain ts where ts: "tasks s rid = Some ts" "ts \<noteq> Returned"
    using assms(1,3) by (auto simp: once_def split: if_splits)
  have d: "sleep_delay info t = max 0 (E - t)" using g(2) by (simp add: sleep_delay_def)
  show ?thesis
  proof (cases ts)
    case AwaitingSend
    then have "tasks (run [Resume rid, WatchdogStart rid t] s) rid =
        Some (Sleeping info (t + sleep_delay info t))"
      using ts info by (simp add: resume_own resume_frame start_own)
    then show ?thesis using g d sleep_delay_bound [of info t] by auto
  next
    case Created
    then have "tasks (run [Resume rid, WatchdogStart rid t] s) rid =
        Some (Sleeping info (t + sleep_delay info t))"
      using ts info by (simp add: use_bot_action_resume_def start_own)
    then show ?thesis using g d sleep_delay_bound [of info t] by auto
  next
    case (Sleeping i w)
    then have "tasks (run [Resume rid, WatchdogStart rid t] s) rid = Some (Sleeping i w)"
      using ts by (simp add: use_bot_action_resume_def wait_timeout_start_def)
    moreover have "source_group i = G \<and> E \<le> w" using assms(2) ts Sleeping by (auto simp: timed_def)
    ultimately show ?thesis using ts Sleeping by auto
  next
    case Returned
    then show ?thesis using ts by simp
  qed
qed

lemma start_frame_run:
  "pending_requests (run [Resume rid, WatchdogStart rid t] s) = pending_requests s"
  "sent (run [Resume rid, WatchdogStart rid t] s) = sent s"
  by (simp_all add: resume_frame start_frame)

lemma watchdog_fires:
  assumes "once rid s" and "timed rid G E s" and "map_of (pending_requests s) rid \<noteq> None"
    and "tasks (run [Resume rid, WatchdogStart rid t, WatchdogWake rid t'] s) rid = Some Returned"
  shows "deliveries rid (run [Resume rid, WatchdogStart rid t, WatchdogWake rid t'] s) =
           [\<lparr>to_group = G, body = timeout_message s, request = rid, kind = Timeout, sent_at = t'\<rparr>]
         \<and> E \<le> t'"
proof -
  let ?s2 = "run [Resume rid, WatchdogStart rid t] s"
  have r: "run [Resume rid, WatchdogStart rid t, WatchdogWake rid t'] s = wait_timeout_wake rid t' ?s2"
    by simp
  obtain i w where iw: "tasks ?s2 rid = Some (Sleeping i w)" "source_group i = G" "E \<le> w"
    using asleep_after_start [OF assms(1,2,3), of t] by blast
  have p: "map_of (pending_requests ?s2) rid \<noteq> None" using assms(3) start_frame_run(1) by simp
  have d0: "deliveries rid ?s2 = []"
    using assms(1,3) start_frame_run(2) [of rid t s] by (auto simp: once_def deliveries_def split: if_splits)
  have tm: "timeout_message ?s2 = timeout_message s" by (rule timeout_message_run)
  show ?thesis
  proof (cases rule: wake_own_cases [of rid t' ?s2])
    case idle
    then show ?thesis using assms(4) iw(1) unfolding r by simp
  next
    case (fire info w' y)
    then have eq: "info = i" "w' = w" using iw(1) by simp_all
    let ?m = "\<lparr>to_group = source_group info, body = timeout_message ?s2,
               request = rid, kind = Timeout, sent_at = t'\<rparr>"
    have "deliveries rid (wait_timeout_wake rid t' ?s2) = deliveries rid ?s2 @ [?m]"
      using fire(4) deliveries_snoc [of "wait_timeout_wake rid t' ?s2" ?s2 ?m rid] by simp
    then show ?thesis unfolding r using d0 tm eq iw(2,3) fire(2) by simp
  next
    case (late info w')
    then show ?thesis using p by simp
  qed
qed

lemma watchdog_returns:
  assumes "once rid s" and "timed rid G E s" and "map_of (pending_requests s) rid \<noteq> None"
    and "t \<le> t'" and "E \<le> t'" and "\<forall>i w. tasks s rid = Some (Sleeping i w) \<longrightarrow> w \<le> t'"
  shows "tasks (run [Resume rid, WatchdogStart rid t, WatchdogWake rid t'] s) rid = Some Returned"
proof -
  let ?s2 = "run [Resume rid, WatchdogStart rid t] s"
  have r: "run [Resume rid, WatchdogStart rid t, WatchdogWake rid t'] s = wait_timeout_wake rid t' ?s2"
    by simp
  obtain i w where iw: "tasks ?s2 rid = Some (Sleeping i w)"
    "w = t + max 0 (E - t) \<or> tasks s rid = Some (Sleeping i w)"
    using asleep_after_start [OF assms(1,2,3), of t] by blast
  have "w \<le> t'" using iw(2) assms(4,5,6) by (auto simp: max_def)
  then show ?thesis unfolding r using iw(1) by (simp add: wake_own)
qed

text \<open>
  Claim C5. The delay handed to \<open>asyncio.sleep\<close> is \<open>max(0, expire_at - now)\<close>: never
  negative, reaching \<open>expire_at\<close> at least, and zero for a watchdog started at or after
  \<open>expire_at\<close>, which goes to sleep like any other. A watchdog woken before its sleep has
  ended does nothing; one that wakes after it with its key still in the table removes the
  key and sends the configured timeout message to the \<open>source_group\<close> it read at its start.
  For a request dispatched at \<open>t0\<close> from an action with timeout \<open>T\<close> the entry expires at
  \<open>t0 + T\<close>, and along every run a timeout message for it is sent at a clock reading of at
  least \<open>t0 + T\<close>. If after a run without teardown the key is still in the table (no reply
  has been matched to the request), then the watchdog, started at any \<open>t\<close> and woken at any
  \<open>t'\<close> that is not before \<open>t\<close>, \<open>t0 + T\<close> and the end of a sleep already begun, returns; and
  whenever it has returned, the one delivery for the request is the configured timeout
  message, to the group the request came from, sent at \<open>t'\<close>, which is at least \<open>t0 + T\<close>.
  (The clock readings are those of one clock, and a sleep ends no earlier than its delay.)
\<close>

theorem expiry_precision:
  "(\<forall>info now. sleep_delay info now = max 0 (expire_at info - now) \<and> 0 \<le> sleep_delay info now \<and>
       expire_at info \<le> now + sleep_delay info now \<and>
       (expire_at info \<le> now \<longrightarrow> sleep_delay info now = 0))
   \<and> (\<forall>info now. tasks s rid = Some Created \<and> map_of (pending_requests s) rid = Some info \<longrightarrow>
         tasks (wait_timeout_start rid now s) rid = Some (Sleeping info (now + sleep_delay info now)))
   \<and> (\<forall>info w now. tasks s rid = Some (Sleeping info w) \<and> now < w \<longrightarrow>
         wait_timeout_wake rid now s = s)
   \<and> (\<forall>info w now. tasks s rid = Some (Sleeping info w) \<and> w \<le> now \<and>
         map_of (pending_requests s) rid \<noteq> None \<longrightarrow>
         wait_timeout_wake rid now s =
           s\<lparr>pending_requests := AList.delete rid (pending_requests s),
             sent := sent s @
               [\<lparr>to_group = source_group info, body = timeout_message s,
                 request = rid, kind = Timeout, sent_at = now\<rparr>],
             tasks := (tasks s)(rid \<mapsto> Returned)\<rparr>)
   \<and> (\<forall>ev d pick t0 s0 es.
         use_bot_action ev d rid pick t0 s0 = (Dispatched rid, s) \<and>
         map_of (pending_requests s0) rid = None \<and> deliveries rid s0 = [] \<and>
         rid \<notin> set (dispatch_ids es) \<longrightarrow>
         (\<exists>a. find_action d (actions s0) = Some a \<and>
              map_of (pending_requests s) rid \<noteq> None \<and>
              (\<forall>i. map_of (pending_requests s) rid = Some i \<longrightarrow>
                   expire_at i = t0 + real_of_int (act_timeout a)) \<and>
              (\<forall>m\<in>set (deliveries rid (run es s)).
                   kind m = Timeout \<longrightarrow> t0 + real_of_int (act_timeout a) \<le> sent_at m) \<and>
              (Terminate \<notin> set es \<and> map_of (pending_requests (run es s)) rid \<noteq> None \<longrightarrow>
                 (\<forall>t t'.
                    (t \<le> t' \<and> t0 + real_of_int (act_timeout a) \<le> t' \<and>
                     (\<forall>i w. tasks (run es s) rid = Some (Sleeping i w) \<longrightarrow> w \<le> t') \<longrightarrow>
                     tasks (run (es @ [Resume rid, WatchdogStart rid t, WatchdogWake rid t']) s) rid =
                       Some Returned) \<and>
                    (tasks (run (es @ [Resume rid, WatchdogStart rid t, WatchdogWake rid t']) s) rid =
                       Some Returned \<longrightarrow>
                     deliveries rid (run (es @ [Resume rid, WatchdogStart rid t, WatchdogWake rid t']) s) =
                       [\<lparr>to_group = get_group_id ev, body = timeout_message s0, request = rid,
                         kind = Timeout, sent_at = t'\<rparr>] \<and>
                     t0 + real_of_int (act_timeout a) \<le> t')))))"
proof (intro conjI allI impI)
  fix info now
  show "sleep_delay info now = max 0 (expire_at info - now)" by (simp add: sleep_delay_def)
  show "0 \<le> sleep_delay info now" by (simp add: sleep_delay_def)
  show "expire_at info \<le> now + sleep_delay info now" by (rule sleep_delay_bound)
  show "sleep_delay info now = 0" if "expire_at info \<le> now" using that by (simp add: sleep_delay_def)
next
  fix info now
  assume "tasks s rid = Some Created \<and> map_of (pending_requests s) rid = Some info"
  then show "tasks (wait_timeout_start rid now s) rid = Some (Sleeping info (now + sleep_delay info now))"
    by (simp add: start_own)
next
  fix info w now
  assume "tasks s rid = Some (Sleeping info w) \<and> now < w"
  then show "wait_timeout_wake rid now s = s" by (simp add: wake_own)
next
  fix info w now
  assume "tasks s rid = Some (Sleeping info w) \<and> w \<le> now \<and> map_of (pending_requests s) rid \<noteq> None"
  then show "wait_timeout_wake rid now s =
           s\<lparr>pending_requests := AList.delete rid (pending_requests s),
             sent := sent s @
               [\<lparr>to_group = source_group info, body = timeout_message s,
                 request = rid, kind = Timeout, sent_at = now\<rparr>],
             tasks := (tasks s)(rid \<mapsto> Returned)\<rparr>"
    by (simp add: wake_own)
next
  fix ev d pick t0 s0 es
  assume h: "use_bot_action ev d rid pick t0 s0 = (Dispatched rid, s) \<and>
         map_of (pending_requests s0) rid = None \<and> deliveries rid s0 = [] \<and>
         rid \<notin> set (dispatch_ids es)"
  then obtain a where f: "find_action d (actions s0) = Some a"
    and t0: "timed rid (get_group_id ev) (t0 + real_of_int (act_timeout a)) s"
    using dispatch_timed [of ev d rid pick t0 s0 s] by blast
  let ?E = "t0 + real_of_int (act_timeout a)"
  have t: "timed rid (get_group_id ev) ?E (run es s)"
    using timed_run [OF t0] h by blast
  have p: "map_of (pending_requests s) rid \<noteq> None"
    using dispatch_present [of ev d rid pick t0 s0 s] h by blast
  have e: "\<forall>i. map_of (pending_requests s) rid = Some i \<longrightarrow> expire_at i = ?E"
    using t0 by (auto simp: timed_def dest!: map_of_SomeD)
  have m: "\<forall>m\<in>set (deliveries rid (run es s)). kind m = Timeout \<longrightarrow> ?E \<le> sent_at m"
    using t by (simp add: timed_def)
  have tm: "timeout_message (run es s) = timeout_message s0"
    using timeout_message_run [of es s] dispatch_timeout_message [of ev d rid pick t0 s0 _ s] h
    by simp
  have w: "Terminate \<notin> set es \<and> map_of (pending_requests (run es s)) rid \<noteq> None \<longrightarrow>
      (\<forall>t t'.
         (t \<le> t' \<and> ?E \<le> t' \<and>
          (\<forall>i w. tasks (run es s) rid = Some (Sleeping i w) \<longrightarrow> w \<le> t') \<longrightarrow>
          tasks (run (es @ [Resume rid, WatchdogStart rid t, WatchdogWake rid t']) s) rid =
            Some Returned) \<and>
         (tasks (run (es @ [Resume rid, WatchdogStart rid t, WatchdogWake rid t']) s) rid =
            Some Returned \<longrightarrow>
          deliveries rid (run (es @ [Resume rid, WatchdogStart rid t, WatchdogWake rid t']) s) =
            [\<lparr>to_group = get_group_id ev, body = timeout_message s0, request = rid,
              kind = Timeout, sent_at = t'\<rparr>] \<and>
          ?E \<le> t'))"
  proof (intro impI allI conjI)
    fix t t'
    assume g: "Terminate \<notin> set es \<and> map_of (pending_requests (run es s)) rid \<noteq> None"
    have o: "once rid (run es s)"
      using once_run [OF dispatch_once, of ev d rid pick t0 s0 s es] h g by blast
    {
      assume "t \<le> t' \<and> ?E \<le> t' \<and>
          (\<forall>i w. tasks (run es s) rid = Some (Sleeping i w) \<longrightarrow> w \<le> t')"
      then show "tasks (run (es @ [Resume rid, WatchdogStart rid t, WatchdogWake rid t']) s) rid =
            Some Returned"
        unfolding run_append using watchdog_returns [OF o t, of t t'] g by blast
    }
    {
      assume r: "tasks (run (es @ [Resume rid, WatchdogStart rid t, WatchdogWake rid t']) s) rid =
            Some Returned"
      note wf = watchdog_fires [OF o t, of t t']
      show "deliveries rid (run (es @ [Resume rid, WatchdogStart rid t, WatchdogWake rid t']) s) =
            [\<lparr>to_group = get_group_id ev, body = timeout_message s0, request = rid,
              kind = Timeout, sent_at = t'\<rparr>]"
        using wf g r tm unfolding run_append by simp
      show "?E \<le> t'" using wf g r unfolding run_append by simp
    }
  qed
  show "\<exists>a. find_action d (actions s0) = Some a \<and>
              map_of (pending_requests s) rid \<noteq> None \<and>
              (\<forall>i. map_of (pending_requests s) rid = Some i \<longrightarrow>
                   expire_at i = t0 + real_of_int (act_timeout a)) \<and>
              (\<forall>m\<in>set (deliveries rid (run es s)).
                   kind m = Timeout \<longrightarrow> t0 + real_of_int (act_timeout a) \<le> sent_at m) \<and>
              (Terminate \<notin> set es \<and> map_of (pending_requests (run es s)) rid \<noteq> None \<longrightarrow>
                 (\<forall>t t'.
                    (t \<le> t' \<and> t0 + real_of_int (act_timeout a) \<le> t' \<and>
                     (\<forall>i w. tasks (run es s) rid = Some (Sleeping i w) \<longrightarrow> w \<le> t') \<longrightarrow>
                     tasks (run (es @ [Resume rid, WatchdogStart rid t, WatchdogWake rid t']) s) rid =
                       Some Returned) \<and>
                    (tasks (run (es @ [Resume rid, WatchdogStart rid t, WatchdogWake rid t']) s) rid =
                       Some Returned \<longrightarrow>
                     deliveries rid (run (es @ [Resume rid, WatchdogStart rid t, WatchdogWake rid t']) s) =
                       [\<lparr>to_group = get_group_id ev, body = timeout_message s0, request = rid,
                         kind = Timeout, sent_at = t'\<rparr>] \<and>
                     t0 + real_of_int (act_timeout a) \<le> t')))"
    by (intro exI [of _ a] conjI f p e m w)
qed

text \<open>
  Claim C8. \<open>terminate\<close> empties the table and sends nothing. A watchdog that wakes after
  it sends nothing, and along every run after it no result or timeout message is sent for
  any identifier that is not dispatched anew: the entries discarded are never answered.
\<close>

theorem teardown_silent:
  "pending_requests (terminate s) = [] \<and> sent (terminate s) = sent s \<and> tasks (terminate s) = tasks s
   \<and> (\<forall>rid now. pending_requests (wait_timeout_wake rid now (terminate s)) = [] \<and>
         sent (wait_timeout_wake rid now (terminate s)) = sent s)
   \<and> (\<forall>rid es. rid \<notin> set (dispatch_ids es) \<longrightarrow>
         deliveries rid (run es (terminate s)) = deliveries rid s \<and>
         map_of (pending_requests (run es (terminate s))) rid = None)"
proof (intro conjI allI impI)
  show "pending_requests (terminate s) = []" "sent (terminate s) = sent s"
    "tasks (terminate s) = tasks s"
    by (simp_all add: terminate_def)
next
  fix rid now
  have a: "map_of (pending_requests (terminate s)) rid = None" by (simp add: terminate_def)
  show "pending_requests (wait_timeout_wake rid now (terminate s)) = []"
    using wake_absent [OF a, of now] by (simp add: terminate_def)
  show "sent (wait_timeout_wake rid now (terminate s)) = sent s"
    using wake_absent [OF a, of now] by (simp add: terminate_def)
next
  fix rid es
  assume h: "rid \<notin> set (dispatch_ids es)"
  have a: "map_of (pending_requests (terminate s)) rid = None" by (simp add: terminate_def)
  have d: "deliveries rid (terminate s) = deliveries rid s" by (simp add: terminate_def deliveries_def)
  show "deliveries rid (run es (terminate s)) = deliveries rid s"
    using absent_run [OF a h] d by simp
  show "map_of (pending_requests (run es (terminate s))) rid = None"
    using absent_run [OF a h] by simp
qed

subsection \<open>The scenario of the specification\<close>

lemma dispatch_example:
  "use_bot_action ev_user ''network'' ''r1'' 0 7 plugin2 = (Dispatched ''r1'', dispatched2)"
  by (simp add: use_bot_action_def rate_limited_def find_action_def plugin2_def action_ping_def
      action_at_def ev_user_def dispatched2_def info1_def sublist_code)

lemma plugin2_fresh:
  "map_of (pending_requests plugin2) ''r1'' = None" "deliveries ''r1'' plugin2 = []"
  by (simp_all add: plugin2_def deliveries_def)

lemma reply_first_run:
  "deliveries ''r1'' (run reply_first dispatched2) =
     [\<lparr>to_group = PyInt 3003, body = result_prefix @ ''pong'', request = ''r1'', kind = Result,
       sent_at = 9\<rparr>]"
  "tasks (run reply_first dispatched2) ''r1'' = Some Returned"
  "pending_requests (run reply_first dispatched2) = []"
  by (simp_all add: reply_first_def dispatched2_def plugin2_def info1_def ev_pong_def
      use_bot_action_resume_def wait_timeout_start_def wait_timeout_wake_def on_all_message_def
      dict_pop_def sleep_delay_def deliveries_def)

lemma timeout_first_run:
  "deliveries ''r1'' (run timeout_first dispatched2) =
     [\<lparr>to_group = PyInt 3003, body = ''timeout'', request = ''r1'', kind = Timeout,
       sent_at = 12\<rparr>]"
  "tasks (run timeout_first dispatched2) ''r1'' = Some Returned"
  "pending_requests (run timeout_first dispatched2) = []"
  by (simp_all add: timeout_first_def dispatched2_def plugin2_def info1_def ev_pong_def
      use_bot_action_resume_def wait_timeout_start_def wait_timeout_wake_def on_all_message_def
      dict_pop_def sleep_delay_def deliveries_def)

theorem exactly_one_delivery_witness:
  "length (deliveries ''r1'' (run reply_first dispatched2)) = 1
   \<and> length (deliveries ''r1'' (run timeout_first dispatched2)) = 1
   \<and> map kind (deliveries ''r1'' (run reply_first dispatched2)) = [Result]
   \<and> map kind (deliveries ''r1'' (run timeout_first dispatched2)) = [Timeout]
   \<and> map to_group (deliveries ''r1'' (run reply_first dispatched2)) = [get_group_id ev_user]
   \<and> map to_group (deliveries ''r1'' (run timeout_first dispatched2)) = [get_group_id ev_user]"
proof -
  have ids: "''r1'' \<notin> set (dispatch_ids reply_first)" "Terminate \<notin> set reply_first"
    "''r1'' \<notin> set (dispatch_ids timeout_first)" "Terminate \<notin> set timeout_first"
    by (simp_all add: reply_first_def timeout_first_def)
  have a: "length (deliveries ''r1'' (run reply_first dispatched2)) = 1"
    using exactly_one_delivery [OF dispatch_example plugin2_fresh ids(1,2), THEN conjunct2,
        THEN conjunct2, THEN conjunct1] reply_first_run(2)
    by simp
  have b: "length (deliveries ''r1'' (run timeout_first dispatched2)) = 1"
    using exactly_one_delivery [OF dispatch_example plugin2_fresh ids(3,4), THEN conjunct2,
        THEN conjunct1] timeout_first_run(3)
    by simp
  show ?thesis using a b reply_first_run(1) timeout_first_run(1) by (simp add: ev_user_def)
qed

theorem expiry_precision_witness:
  "sleep_delay info1 7 = 5 \<and> sleep_delay info1 20 = 0
   \<and> tasks (wait_timeout_start ''r1'' 20 (use_bot_action_resume ''r1'' dispatched2)) ''r1'' =
       Some (Sleeping info1 20)
   \<and> map_of (pending_requests dispatched2) ''r1'' = Some info1
   \<and> expire_at info1 = 7 + real_of_int (act_timeout action_ping)
   \<and> tasks (run (no_reply @ [Resume ''r1'', WatchdogStart ''r1'' 7, WatchdogWake ''r1'' 12]) dispatched2)
        ''r1'' = Some Returned
   \<and> deliveries ''r1''
        (run (no_reply @ [Resume ''r1'', WatchdogStart ''r1'' 7, WatchdogWake ''r1'' 12]) dispatched2) =
       [\<lparr>to_group = PyInt 3003, body = ''timeout'', request = ''r1'', kind = Timeout,
         sent_at = 12\<rparr>]
   \<and> deliveries ''r1''
        (run (no_reply @ [Resume ''r1'', WatchdogStart ''r1'' 7, WatchdogWake ''r1'' 11]) dispatched2) = []"
proof -
  note t = expiry_precision [of "use_bot_action_resume ''r1'' dispatched2" "''r1''"]
  have d: "sleep_delay info1 7 = 5" "sleep_delay info1 20 = 0"
    using t [THEN conjunct1, rule_format, of info1 7] t [THEN conjunct1, rule_format, of info1 20]
    by (simp_all add: info1_def)
  have c: "tasks (use_bot_action_resume ''r1'' dispatched2) ''r1'' = Some Created \<and>
      map_of (pending_requests (use_bot_action_resume ''r1'' dispatched2)) ''r1'' = Some info1"
    by (simp add: use_bot_action_resume_def dispatched2_def)
  have s: "tasks (wait_timeout_start ''r1'' 20 (use_bot_action_resume ''r1'' dispatched2)) ''r1'' =
       Some (Sleeping info1 20)"
    using t [THEN conjunct2, THEN conjunct1, rule_format, OF c, of 20] d(2) by simp
  have p: "map_of (pending_requests dispatched2) ''r1'' = Some info1"
    by (simp add: dispatched2_def)
  have ids: "''r1'' \<notin> set (dispatch_ids no_reply)" by (simp add: no_reply_def)
  have f: "find_action ''network'' (actions plugin2) = Some action_ping"
    by (simp add: find_action_def plugin2_def action_ping_def sublist_code)
  have nr: "run no_reply dispatched2 = dispatched2"
    by (simp add: no_reply_def on_all_message_def dispatched2_def plugin2_def info1_def ev_user_def)
  have g: "Terminate \<notin> set no_reply \<and> map_of (pending_requests (run no_reply dispatched2)) ''r1'' \<noteq> None"
    unfolding nr by (simp add: no_reply_def dispatched2_def)
  obtain a where a: "find_action ''network'' (actions plugin2) = Some a"
    "\<forall>i. map_of (pending_requests dispatched2) ''r1'' = Some i \<longrightarrow>
         expire_at i = 7 + real_of_int (act_timeout a)"
    "Terminate \<notin> set no_reply \<and> map_of (pending_requests (run no_reply dispatched2)) ''r1'' \<noteq> None \<longrightarrow>
      (\<forall>t t'.
         (t \<le> t' \<and> 7 + real_of_int (act_timeout a) \<le> t' \<and>
          (\<forall>i w. tasks (run no_reply dispatched2) ''r1'' = Some (Sleeping i w) \<longrightarrow> w \<le> t') \<longrightarrow>
          tasks (run (no_reply @ [Resume ''r1'', WatchdogStart ''r1'' t, WatchdogWake ''r1'' t']) dispatched2) ''r1'' =
            Some Returned) \<and>
         (tasks (run (no_reply @ [Resume ''r1'', WatchdogStart ''r1'' t, WatchdogWake ''r1'' t']) dispatched2) ''r1'' =
            Some Returned \<longrightarrow>
          deliveries ''r1'' (run (no_reply @ [Resume ''r1'', WatchdogStart ''r1'' t, WatchdogWake ''r1'' t']) dispatched2) =
            [\<lparr>to_group = get_group_id ev_user, body = timeout_message plugin2, request = ''r1'',
              kind = Timeout, sent_at = t'\<rparr>] \<and>
          7 + real_of_int (act_timeout a) \<le> t'))"
    using expiry_precision [of dispatched2 "''r1''", THEN conjunct2, THEN conjunct2, THEN conjunct2,
        THEN conjunct2, rule_format, of ev_user "''network''" 0 7 plugin2 no_reply]
      dispatch_example plugin2_fresh ids
    by blast
  have aa: "a = action_ping" using a(1) f by simp
  have e: "expire_at info1 = 7 + real_of_int (act_timeout action_ping)"
    using a(2) p aa by simp
  have pre: "(7::real) \<le> 12 \<and> 7 + real_of_int (act_timeout action_ping) \<le> 12 \<and>
      (\<forall>i w. tasks (run no_reply dispatched2) ''r1'' = Some (Sleeping i w) \<longrightarrow> w \<le> 12)"
    unfolding nr by (simp add: action_ping_def dispatched2_def)
  have ret: "tasks (run (no_reply @ [Resume ''r1'', WatchdogStart ''r1'' 7, WatchdogWake ''r1'' 12]) dispatched2)
        ''r1'' = Some Returned"
    using a(3) [rule_format, OF g, of 7 12, THEN conjunct1] pre aa by blast
  have del: "deliveries ''r1''
        (run (no_reply @ [Resume ''r1'', WatchdogStart ''r1'' 7, WatchdogWake ''r1'' 12]) dispatched2) =
       [\<lparr>to_group = PyInt 3003, body = ''timeout'', request = ''r1'', kind = Timeout,
         sent_at = 12\<rparr>]"
    using a(3) [rule_format, OF g, of 7 12, THEN conjunct2] ret
    by (simp add: ev_user_def plugin2_def)
  have early: "deliveries ''r1''
        (run (no_reply @ [Resume ''r1'', WatchdogStart ''r1'' 7, WatchdogWake ''r1'' 11]) dispatched2) = []"
    unfolding run_append nr
    by (simp add: dispatched2_def plugin2_def info1_def use_bot_action_resume_def
        wait_timeout_start_def wait_timeout_wake_def sleep_delay_def deliveries_def)
  show ?thesis using d s p e ret del early by simp
qed

theorem teardown_silent_witness:
  "pending_requests (run [Resume ''r1'', WatchdogStart ''r1'' 7] dispatched2) = [(''r1'', info1)]
   \<and> tasks (run [Resume ''r1'', WatchdogStart ''r1'' 7] dispatched2) ''r1'' = Some (Sleeping info1 12)
   \<and> pending_requests (terminate (run [Resume ''r1'', WatchdogStart ''r1'' 7] dispatched2)) = []
   \<and> deliveries ''r1''
        (run after_teardown (terminate (run [Resume ''r1'', WatchdogStart ''r1'' 7] dispatched2))) = []
   \<and> sent (wait_timeout_wake ''r1'' 12
        (terminate (run [Resume ''r1'', WatchdogStart ''r1'' 7] dispatched2))) = sent dispatched2"
proof -
  let ?s = "run [Resume ''r1'', WatchdogStart ''r1'' 7] dispatched2"
  have st: "pending_requests ?s = [(''r1'', info1)]" "tasks ?s ''r1'' = Some (Sleeping info1 12)"
    "sent ?s = sent dispatched2" "deliveries ''r1'' ?s = []"
    by (simp_all add: dispatched2_def use_bot_action_resume_def wait_timeout_start_def
        sleep_delay_def info1_def deliveries_def)
  note t = teardown_silent [of ?s]
  have ids: "''r1'' \<notin> set (dispatch_ids after_teardown)" by (simp add: after_teardown_def)
  have a: "pending_requests (terminate ?s) = []" using t [THEN conjunct1] .
  have b: "deliveries ''r1'' (run after_teardown (terminate ?s)) = []"
    using t [THEN conjunct2, THEN conjunct2, THEN conjunct2, THEN conjunct2, rule_format, OF ids]
      st(4)
    by simp
  have c: "sent (wait_timeout_wake ''r1'' 12 (terminate ?s)) = sent dispatched2"
    using t [THEN conjunct2, THEN conjunct2, THEN conjunct2, THEN conjunct1, rule_format,
        of "''r1''" 12] st(3)
    by simp
  show ?thesis using st(1,2) a b c by simp
qed

end
